(* ===== verification/Go_Prelude.thy ===== *)
theory Go_Prelude
  imports Main "HOL-Library.Word" "HOL-Library.Char_ord" "HOL-Library.List_Lexorder"
begin

text \<open>
  What the components share: the values of Go the source computes with (errors, panics, nil-able
  byte slices, 64-bit durations), the standard-library operations on them, and the generic lemmas
  and rule collections the component proofs use.
\<close>

section \<open>Rule collections\<close>

named_theorems run \<open>unfolding for the evaluation of an operation on a concrete input\<close>
named_theorems map_law \<open>how an operation changes the manager's maps\<close>
named_theorems inv_intro \<open>an operation keeps the manager's invariant\<close>

section \<open>Machine integers and bytes\<close>

type_synonym u8 = "8 word"
type_synonym u32 = "32 word"
type_synonym u64 = "64 word"

text \<open>
  A Go \<open>[]byte\<close> is nil or a slice; \<open>reflect.DeepEqual\<close> tells a nil slice from an empty one, so
  the model keeps the difference: \<open>None\<close> is nil.
\<close>

type_synonym bytes = "u8 list option"

text \<open>A Go \<open>string\<close> is a sequence of bytes: the conversions copy them.\<close>

definition bytes_of_string :: "string \<Rightarrow> u8 list" where
  "bytes_of_string s = map (\<lambda>c. word_of_nat (of_char c)) s"

definition string_of_bytes :: "bytes \<Rightarrow> string" where
  "string_of_bytes b = (case b of None \<Rightarrow> [] | Some l \<Rightarrow> map (\<lambda>b. char_of (unat b)) l)"

text \<open>\<open>fmt.Sprintf("%x", b)\<close>: two lower-case hexadecimal digits for every byte.\<close>

definition hex_digit :: "nat \<Rightarrow> char" where
  "hex_digit n = ''0123456789abcdef'' ! n"

definition hex_byte :: "u8 \<Rightarrow> string" where
  "hex_byte b = [hex_digit (unat b div 16), hex_digit (unat b mod 16)]"

definition sprintf_x :: "bytes \<Rightarrow> string" where
  "sprintf_x b = (case b of None \<Rightarrow> [] | Some l \<Rightarrow> concat (map hex_byte l))"

text \<open>
  \<open>reflect.DeepEqual\<close> on the dynamic values the source compares: values of different types are
  never equal.
\<close>

datatype go_value = GoBytes bytes | GoString string

definition reflect_DeepEqual :: "go_value \<Rightarrow> go_value \<Rightarrow> bool" where
  "reflect_DeepEqual a b \<longleftrightarrow> a = b"

text \<open>
  \<open>time.Duration(n) * time.Second\<close>: a signed 64-bit product in nanoseconds, which wraps around.
\<close>

definition time_Second :: u64 where
  "time_Second = 1000000000"

definition duration_of_seconds :: "u64 \<Rightarrow> u64" where
  "duration_of_seconds n = n * time_Second"

section \<open>Errors and panics\<close>

text \<open>
  An error value, by what the predicates of the API machinery report about it
  (\<open>apierrors.IsNotFound\<close>, \<open>errors.Is(err, &meta.NoKindMatchError{})\<close>, \<open>IsUnauthorized\<close>,
  \<open>IsForbidden\<close>) and by its message. \<open>errors.Wrapf\<close> keeps the cause, so the predicates see
  through it.
\<close>

datatype err_class = CNotFound | CNoKindMatch | CUnauthorized | CForbidden | COther

datatype goerr = GoErr (err_class: err_class) (err_msg: string)

definition IsNotFound :: "goerr \<Rightarrow> bool" where
  "IsNotFound e \<longleftrightarrow> err_class e = CNotFound"

definition IsNoKindMatch :: "goerr \<Rightarrow> bool" where
  "IsNoKindMatch e \<longleftrightarrow> err_class e = CNoKindMatch"

definition IsUnauthorized :: "goerr \<Rightarrow> bool" where
  "IsUnauthorized e \<longleftrightarrow> err_class e = CUnauthorized"

definition IsForbidden :: "goerr \<Rightarrow> bool" where
  "IsForbidden e \<longleftrightarrow> err_class e = CForbidden"

definition Wrapf :: "goerr \<Rightarrow> string \<Rightarrow> goerr" where
  "Wrapf e msg = GoErr (err_class e) (msg @ '': '' @ err_msg e)"

text \<open>
  What a call does: return a value with a nil error, return an error, or panic. A call with side
  effects is paired with the state it leaves behind, also when it fails.
\<close>

datatype 'a outcome = Ok 'a | Err goerr | Panic

text \<open>
  \<open>and_then c k\<close> is the idiom \<^verbatim>\<open>v, err := c; if err != nil { return err }; k(v)\<close>: the state
  an erring or panicking call has reached is kept.
\<close>

definition and_then :: "'a outcome \<times> 'st \<Rightarrow> ('a \<Rightarrow> 'st \<Rightarrow> 'b outcome \<times> 'st) \<Rightarrow> 'b outcome \<times> 'st" where
  "and_then r k = (case r of (Ok a, s) \<Rightarrow> k a s | (Err e, s) \<Rightarrow> (Err e, s) | (Panic, s) \<Rightarrow> (Panic, s))"

text \<open>The same idiom around a call that has no effect on the state.\<close>

definition and_then_pure :: "'a outcome \<Rightarrow> 'st \<Rightarrow> ('a \<Rightarrow> 'b outcome \<times> 'st) \<Rightarrow> 'b outcome \<times> 'st" where
  "and_then_pure r s k = (case r of Ok a \<Rightarrow> k a | Err e \<Rightarrow> (Err e, s) | Panic \<Rightarrow> (Panic, s))"

definition map_outcome_err :: "(goerr \<Rightarrow> goerr) \<Rightarrow> 'a outcome \<Rightarrow> 'a outcome" where
  "map_outcome_err f r = (case r of Err e \<Rightarrow> Err (f e) | Ok a \<Rightarrow> Ok a | Panic \<Rightarrow> Panic)"

definition is_ok :: "'a outcome \<Rightarrow> bool" where
  "is_ok r \<longleftrightarrow> (case r of Ok _ \<Rightarrow> True | _ \<Rightarrow> False)"

definition is_err :: "'a outcome \<Rightarrow> bool" where
  "is_err r \<longleftrightarrow> (case r of Err _ \<Rightarrow> True | _ \<Rightarrow> False)"

section \<open>Lemmas\<close>

lemma and_then_simps [simp]:
  "and_then (Ok a, s) k = k a s"
  "and_then (Err e, s) k = (Err e, s)"
  "and_then (Panic, s) k = (Panic, s)"
  by (simp_all add: and_then_def)

lemma and_then_pure_simps [simp]:
  "and_then_pure (Ok a) s k = k a"
  "and_then_pure (Err e) s k = (Err e, s)"
  "and_then_pure Panic s k = (Panic, s)"
  by (simp_all add: and_then_pure_def)

lemma is_ok_simps [simp]: "is_ok (Ok a)" "\<not> is_ok (Err e)" "\<not> is_ok Panic"
  by (simp_all add: is_ok_def)

lemma is_err_simps [simp]: "is_err (Err e)" "\<not> is_err (Ok a)" "\<not> is_err Panic"
  by (simp_all add: is_err_def)

lemma is_ok_iff: "is_ok r \<longleftrightarrow> (\<exists>a. r = Ok a)"
  by (cases r) simp_all

text \<open>Splitting a composed call: either the first part succeeded and the rest ran, or it is the result.\<close>

lemma and_then_Ok [elim!]:
  assumes "and_then r k = (Ok b, s')"
  obtains a s where "r = (Ok a, s)" and "k a s = (Ok b, s')"
  using assms by (cases r; cases "fst r") auto

lemma and_then_cases:
  obtains (ok) a s where "r = (Ok a, s)" and "and_then r k = k a s"
  | (err) e s where "r = (Err e, s)" and "and_then r k = (Err e, s)"
  | (panic) s where "r = (Panic, s)" and "and_then r k = (Panic, s)"
  by (cases r; cases "fst r") auto

text \<open>
  A property of the state that the first call establishes and the continuation keeps holds at the
  end, whichever way the composed call ends.
\<close>

lemma and_then_state:
  assumes "P (snd r)" and "\<And>a s. r = (Ok a, s) \<Longrightarrow> P s \<Longrightarrow> P (snd (k a s))"
  shows "P (snd (and_then r k))"
proof (cases r k rule: and_then_cases)
  case (ok a s)
  then show ?thesis using assms(2) [of a s] assms(1) by simp
next
  case (err e s)
  then show ?thesis using assms(1) by simp
next
  case (panic s)
  then show ?thesis using assms(1) by simp
qed

lemma string_of_bytes_of_string [simp]: "string_of_bytes (Some (bytes_of_string s)) = s"
proof -
  have "char_of (unat (word_of_nat (of_char c) :: u8)) = c" for c
  proof -
    have "of_char c < (256 :: nat)" by simp
    then show ?thesis by (simp add: unat_of_nat)
  qed
  then show ?thesis by (simp add: string_of_bytes_def bytes_of_string_def o_def)
qed

lemma bytes_of_string_inject [simp]: "bytes_of_string s = bytes_of_string t \<longleftrightarrow> s = t"
proof
  assume "bytes_of_string s = bytes_of_string t"
  then have "string_of_bytes (Some (bytes_of_string s)) = string_of_bytes (Some (bytes_of_string t))"
    by simp
  then show "s = t" by simp
qed simp

lemma length_bytes_of_string [simp]: "length (bytes_of_string s) = length s"
  by (simp add: bytes_of_string_def)

lemma length_sprintf_x [simp]: "length (sprintf_x (Some l)) = 2 * length l"
  by (induction l) (simp_all add: sprintf_x_def hex_byte_def)

lemma reflect_DeepEqual_bytes_string [simp]: "\<not> reflect_DeepEqual (GoBytes b) (GoString s)"
  by (simp add: reflect_DeepEqual_def)

lemma reflect_DeepEqual_bytes [simp]: "reflect_DeepEqual (GoBytes a) (GoBytes b) \<longleftrightarrow> a = b"
  by (simp add: reflect_DeepEqual_def)

lemma Wrapf_class [simp]: "err_class (Wrapf e msg) = err_class e"
  by (simp add: Wrapf_def)

end
