(* ===== verification/Kube_Model.thy ===== *)
theory Kube_Model
  imports Go_Prelude
begin

text \<open>
  The data the components exchange (object references, group/version/kinds, the ResourceSummary
  custom resource, unstructured objects) and the code outside the repository they call: the set
  type of libsveltos, the API machinery, the dynamic and typed clients, the patch helper, the
  renderer and the patcher. Each such function is a field of the record \<open>ext\<close>, an argument of
  every definition that uses it; what the proofs rely on are the assumptions of the locales
  below. Calls that reach the cluster take and return its state \<open>'w\<close>; \<open>'s\<close> is the type of
  a set and \<open>'v\<close> the type of the values in an object's content, which the source never inspects.
\<close>

section \<open>Data\<close>

record objref =
  ref_Namespace :: string
  ref_Name :: string
  ref_Kind :: string
  ref_APIVersion :: string

record gvk =
  gvk_Group :: string
  gvk_Version :: string
  gvk_Kind :: string

text \<open>How a resource came to be deployed, in the order of the Go constants.\<close>

datatype rtype = Resource | KustomizeResource | HelmResource

record resource =
  res_Namespace :: string
  res_Name :: string
  res_Group :: string
  res_Kind :: string
  res_Version :: string
  res_IgnoreForConfigurationDrift :: bool

record helm_resources =
  hr_ReleaseNamespace :: string
  hr_Resources :: "resource list"

record resource_hash =
  rh_Resource :: resource
  rh_Hash :: string

text \<open>A patch is handed to the patcher as it is: only its serialised form is kept.\<close>

record patch =
  patch_Text :: string

record rs_spec =
  spec_Resources :: "resource list"
  spec_KustomizeResources :: "resource list"
  spec_ChartResources :: "helm_resources list"
  spec_Patches :: "patch list"

record rs_status =
  ResourcesChanged :: bool
  KustomizeResourcesChanged :: bool
  HelmResourcesChanged :: bool
  ResourceHashes :: "resource_hash list"
  KustomizeResourceHashes :: "resource_hash list"
  HelmResourceHashes :: "resource_hash list"

record resource_summary =
  rs_GVK :: gvk
  rs_Namespace :: string
  rs_Name :: string
  rs_DeletionTimestamp :: "nat option"
  rs_Finalizers :: "string list"
  rs_Spec :: rs_spec
  rs_Status :: rs_status

text \<open>
  An unstructured object by what its accessors return. A Go map is an association list: its order
  is the order one iteration would visit the keys in. \<open>None\<close> is a nil map.
\<close>

record 'v unstructured =
  u_GVK :: gvk
  u_Namespace :: string
  u_Name :: string
  u_Labels :: "(string \<times> string) list option"
  u_Annotations :: "(string \<times> string) list option"
  u_Content :: "(string \<times> 'v) list"

text \<open>What an informer hands to a delete handler: the object, or a tombstone that wraps it.\<close>

datatype 'v notified = Object "'v unstructured" | DeletedFinalStateUnknown string "'v unstructured"

record rest_mapping =
  mapping_Resource :: string
  mapping_Namespaced :: bool

type_synonym rest_mapper = "gvk \<Rightarrow> rest_mapping outcome"

section \<open>Code outside the repository\<close>

record ('s, 'w, 'v) ext =
  \<comment> \<open>libsveltos/lib/set\<close>
  set_new :: 's
  set_Insert :: "objref \<Rightarrow> 's \<Rightarrow> 's"
  set_Erase :: "objref \<Rightarrow> 's \<Rightarrow> 's"
  set_Append :: "'s \<Rightarrow> 's \<Rightarrow> 's"
  set_Difference :: "'s \<Rightarrow> 's \<Rightarrow> objref list"
  set_Len :: "'s \<Rightarrow> nat"
  set_Items :: "'s \<Rightarrow> objref list"
  \<comment> \<open>k8s.io/apimachinery, k8s.io/client-go/tools/cache\<close>
  ToAPIVersionAndKind :: "gvk \<Rightarrow> string \<times> string"
  ref_GroupVersionKind :: "objref \<Rightarrow> gvk"
  APIVersionInternal :: string
  scheme_ObjectKinds :: "gvk list outcome"
  FromUnstructured :: "'v unstructured \<Rightarrow> resource_summary outcome"
  MetaNamespaceKeyFunc :: "'v notified \<Rightarrow> string outcome"
  SplitMetaNamespaceKey :: "string \<Rightarrow> string \<times> string"
  \<comment> \<open>go-render, apimachinery's dump, encoding/json, libsveltos/lib/patcher\<close>
  AsCode_map :: "(string \<times> string) list \<Rightarrow> string"
  AsCode_string :: "string \<Rightarrow> string"
  ForHash :: "'v \<Rightarrow> string"
  json_string :: "string \<Rightarrow> string"
  RunUnstructured :: "patch list \<Rightarrow> 'v unstructured list \<Rightarrow> 'v unstructured list outcome"
  \<comment> \<open>the clients\<close>
  GetDynamicResourceInterface :: "gvk \<Rightarrow> string \<Rightarrow> 'w \<Rightarrow> unit outcome \<times> 'w"
  dr_Get :: "gvk \<Rightarrow> string \<Rightarrow> string \<Rightarrow> 'w \<Rightarrow> 'v unstructured outcome \<times> 'w"
  client_Get :: "string \<Rightarrow> string \<Rightarrow> 'w \<Rightarrow> resource_summary outcome \<times> 'w"
  client_List :: "'w \<Rightarrow> resource_summary list outcome \<times> 'w"
  Status_Update :: "resource_summary \<Rightarrow> 'w \<Rightarrow> unit outcome \<times> 'w"
  dynamic_NewForConfig :: "'w \<Rightarrow> unit outcome \<times> 'w"
  NewDiscoveryClientForConfig :: "'w \<Rightarrow> unit outcome \<times> 'w"
  GetAPIGroupResources :: "'w \<Rightarrow> rest_mapper outcome \<times> 'w"
  AddEventHandler :: "gvk \<Rightarrow> 'w \<Rightarrow> unit outcome \<times> 'w"
  deferred_RESTMapping :: "gvk \<Rightarrow> 'w \<Rightarrow> rest_mapping outcome \<times> 'w"
  StoreDriftDetectionVersion :: "string \<Rightarrow> 'w \<Rightarrow> unit outcome \<times> 'w"
  GetKubernetesVersion :: "'w \<Rightarrow> string outcome \<times> 'w"
  \<comment> \<open>controller-runtime's controllerutil, cluster-api's patch helper\<close>
  ResourceSummaryFinalizer :: string
  ContainsFinalizer :: "resource_summary \<Rightarrow> string \<Rightarrow> bool"
  AddFinalizer :: "resource_summary \<Rightarrow> string \<Rightarrow> resource_summary"
  RemoveFinalizer :: "resource_summary \<Rightarrow> string \<Rightarrow> resource_summary"
  patch_NewHelper :: "resource_summary \<Rightarrow> 'w \<Rightarrow> unit outcome \<times> 'w"
  patch_Patch :: "resource_summary \<Rightarrow> resource_summary \<Rightarrow> 'w \<Rightarrow> (unit outcome \<times> resource_summary) \<times> 'w"

text \<open>The elements of a set.\<close>

definition elems :: "('s, 'w, 'v) ext \<Rightarrow> 's \<Rightarrow> objref set" where
  "elems E s = set (set_Items E s)"

text \<open>Names the API server accepts.\<close>

definition wf_name :: "string \<Rightarrow> bool" where
  "wf_name s \<longleftrightarrow> CHR 0x2F \<notin> set s"

definition wf_gvk :: "gvk \<Rightarrow> bool" where
  "wf_gvk g \<longleftrightarrow> wf_name (gvk_Group g) \<and> wf_name (gvk_Version g) \<and> gvk_Version g \<noteq> []"

section \<open>Type class instances\<close>

instantiation rtype :: enum
begin

definition enum_rtype :: "rtype list" where
  "enum_rtype = [Resource, KustomizeResource, HelmResource]"

definition enum_all_rtype :: "(rtype \<Rightarrow> bool) \<Rightarrow> bool" where
  "enum_all_rtype P \<longleftrightarrow> P Resource \<and> P KustomizeResource \<and> P HelmResource"

definition enum_ex_rtype :: "(rtype \<Rightarrow> bool) \<Rightarrow> bool" where
  "enum_ex_rtype P \<longleftrightarrow> P Resource \<or> P KustomizeResource \<or> P HelmResource"

instance
proof
  show "UNIV = set (Enum.enum :: rtype list)"
    using rtype.exhaust by (auto simp: enum_rtype_def)
  show "distinct (Enum.enum :: rtype list)" by (simp add: enum_rtype_def)
  show "Enum.enum_all P \<longleftrightarrow> Ball UNIV P" for P :: "rtype \<Rightarrow> bool"
    by (metis (full_types) UNIV_I enum_all_rtype_def rtype.exhaust)
  show "Enum.enum_ex P \<longleftrightarrow> Bex UNIV P" for P :: "rtype \<Rightarrow> bool"
    by (metis (full_types) UNIV_I enum_ex_rtype_def rtype.exhaust)
qed

end

section \<open>What the set type promises\<close>

text \<open>
  \<open>libsveltosset.Set\<close> is a set of object references; \<open>Items\<close> lists every element once, in an
  order of its own, and \<open>Len\<close> counts them.
\<close>

locale libset =
  fixes E :: "('s, 'w, 'v) ext"
  assumes Items_new [simp]: "set_Items E (set_new E) = []"
    and elems_Insert [simp]: "elems E (set_Insert E x s) = insert x (elems E s)"
    and elems_Erase [simp]: "elems E (set_Erase E x s) = elems E s - {x}"
    and elems_Append [simp]: "elems E (set_Append E s s') = elems E s \<union> elems E s'"
    and set_Difference [simp]: "set (set_Difference E s s') = elems E s - elems E s'"
    and Len_Items: "set_Len E s = length (set_Items E s)"
    and distinct_Items: "distinct (set_Items E s)"
begin

lemma elems_new [simp]: "elems E (set_new E) = {}"
  by (simp add: elems_def)

lemma Len_zero [simp]: "set_Len E s = 0 \<longleftrightarrow> elems E s = {}"
  by (simp add: Len_Items elems_def)

lemma Len_card: "set_Len E s = card (elems E s)"
  by (simp add: Len_Items elems_def distinct_card distinct_Items)

lemma Items_Nil [simp]: "set_Items E s = [] \<longleftrightarrow> elems E s = {}"
  by (simp add: elems_def)

lemma Items_single: "elems E s = {r} \<Longrightarrow> set_Items E s = [r]"
proof -
  assume one: "elems E s = {r}"
  then have "length (set_Items E s) = 1" using distinct_card [OF distinct_Items [of s]] by (simp add: elems_def)
  then obtain y where "set_Items E s = [y]" by (auto simp: length_Suc_conv)
  with one show ?thesis by (simp add: elems_def)
qed

lemma elems_fold_Insert: "elems E (fold (set_Insert E) xs s) = elems E s \<union> set xs"
  by (induction xs arbitrary: s) auto

lemma finite_elems [simp]: "finite (elems E s)"
  by (simp add: elems_def)

end

text \<open>
  The API machinery: an object reference built from a group/version/kind gives it back, and the key
  function of the informer cache names the object it is given. Group names, versions and the names
  of objects contain no slash.
\<close>

locale apimachinery =
  fixes E :: "('s, 'w, 'v) ext"
  assumes GVK_roundtrip: "wf_gvk g \<Longrightarrow>
      ref_GroupVersionKind E \<lparr>ref_Namespace = ns, ref_Name = n, ref_Kind = gvk_Kind g,
        ref_APIVersion = fst (ToAPIVersionAndKind E g)\<rparr> = g"
    and key_ok: "\<exists>k. MetaNamespaceKeyFunc E (Object u) = Ok k"
    and key_roundtrip: "wf_name (u_Namespace u) \<Longrightarrow> wf_name (u_Name u) \<Longrightarrow>
      MetaNamespaceKeyFunc E (Object u) = Ok k \<Longrightarrow>
      SplitMetaNamespaceKey E k = (u_Namespace u, u_Name u)"

text \<open>
  The renderer writes the entries of a map in the order of their keys: its output does not depend on the
  order in which the map is iterated.
\<close>

locale renderer =
  fixes E :: "('s, 'w, 'v) ext"
  assumes AsCode_map_order: "distinct (map fst kvs) \<Longrightarrow> distinct (map fst kvs') \<Longrightarrow> map_of kvs = map_of kvs' \<Longrightarrow>
      AsCode_map E kvs = AsCode_map E kvs'"

text \<open>
  What is left of a status that was sent to the API server and read again: in the hashes, bytes that
  are not UTF-8 do not survive the encoding as JSON. Everything else of a status came from the API
  server.
\<close>

definition json_hash :: "('s, 'w, 'v) ext \<Rightarrow> resource_hash \<Rightarrow> resource_hash" where
  "json_hash E rh = rh\<lparr>rh_Hash := json_string E (rh_Hash rh)\<rparr>"

definition json_status :: "('s, 'w, 'v) ext \<Rightarrow> rs_status \<Rightarrow> rs_status" where
  "json_status E st = st\<lparr>ResourceHashes := map (json_hash E) (ResourceHashes st),
     KustomizeResourceHashes := map (json_hash E) (KustomizeResourceHashes st),
     HelmResourceHashes := map (json_hash E) (HelmResourceHashes st)\<rparr>"

text \<open>
  The API server, while nobody else writes to it: \<open>summaries\<close> are the ResourceSummaries it stores, by
  namespace and name, and \<open>kind\<close> is their GVK. Reading changes none of them; what is read is what is
  stored, and "not found" is said of what is not stored only; updating a status replaces the status of
  the stored object by what the encoding leaves of the new one, and nothing else of it; what is stored
  has been through the encoding, and going through it again changes nothing.
\<close>

locale api_server =
  fixes E :: "('s, 'w, 'v) ext" and summaries :: "'w \<Rightarrow> string \<times> string \<rightharpoonup> resource_summary" and kind :: gvk
  assumes interface_keeps: "GetDynamicResourceInterface E g ns w = (y, w') \<Longrightarrow> summaries w' = summaries w"
    and interface_exists: "GetDynamicResourceInterface E kind ns w = (Err e, w') \<Longrightarrow> \<not> IsNotFound e"
    and get_keeps: "dr_Get E g ns n w = (x, w') \<Longrightarrow> summaries w' = summaries w"
    and get_stored: "dr_Get E kind ns n w = (Ok u, w') \<Longrightarrow> FromUnstructured E u = Ok rs \<Longrightarrow>
      summaries w (ns, n) = Some rs"
    and get_missing: "dr_Get E kind ns n w = (Err e, w') \<Longrightarrow> IsNotFound e \<Longrightarrow> summaries w (ns, n) = None"
    and client_Get_keeps: "client_Get E ns n w = (z, w') \<Longrightarrow> summaries w' = summaries w"
    and stored_named: "summaries w (ns, n) = Some rs \<Longrightarrow> rs_Namespace rs = ns \<and> rs_Name rs = n"
    and update_stored: "Status_Update E rs w = (Ok (), w') \<Longrightarrow>
      summaries w (rs_Namespace rs, rs_Name rs) = Some old \<Longrightarrow>
      summaries w' = (summaries w)((rs_Namespace rs, rs_Name rs) \<mapsto> old\<lparr>rs_Status := json_status E (rs_Status rs)\<rparr>)"
    and stored_text: "summaries w (ns, n) = Some rs \<Longrightarrow> json_status E (rs_Status rs) = rs_Status rs"
    and json_again: "json_string E (json_string E s) = json_string E s"

text \<open>
  The patch helper sends the difference between the object it was created with and the object it is
  given: nothing when there is none, the finalizers where they differ. An object that is being deleted
  may disappear with its last finalizer.
\<close>

locale patch_helper = api_server +
  assumes helper_keeps: "patch_NewHelper E rs w = (y, w') \<Longrightarrow> summaries w' = summaries w"
    and patch_same: "patch_Patch E rs rs w = ((y, rs'), w') \<Longrightarrow> summaries w' = summaries w"
    and patch_other: "patch_Patch E before after w = ((y, rs'), w') \<Longrightarrow> k \<noteq> (rs_Namespace after, rs_Name after) \<Longrightarrow>
      summaries w' k = summaries w k"
    and patch_finalizers: "patch_Patch E before after w = ((Ok (), rs'), w') \<Longrightarrow>
      rs_Finalizers before \<noteq> rs_Finalizers after \<Longrightarrow>
      summaries w' (rs_Namespace after, rs_Name after) = Some new \<Longrightarrow> rs_Finalizers new = rs_Finalizers after"
    and contains_iff: "ContainsFinalizer E rs f \<longleftrightarrow> f \<in> set (rs_Finalizers rs)"
    and add_set: "set (rs_Finalizers (AddFinalizer E rs f)) = insert f (set (rs_Finalizers rs))"
    and remove_set: "set (rs_Finalizers (RemoveFinalizer E rs f)) = set (rs_Finalizers rs) - {f}"
    and add_frame: "AddFinalizer E rs f = rs\<lparr>rs_Finalizers := rs_Finalizers (AddFinalizer E rs f)\<rparr>"
    and remove_frame: "RemoveFinalizer E rs f = rs\<lparr>rs_Finalizers := rs_Finalizers (RemoveFinalizer E rs f)\<rparr>"
begin

lemma contains_add: "ContainsFinalizer E (AddFinalizer E rs f) f"
  by (simp add: contains_iff add_set)

lemma contains_remove: "\<not> ContainsFinalizer E (RemoveFinalizer E rs f) f"
  by (simp add: contains_iff remove_set)

lemma remove_names:
  "rs_Namespace (RemoveFinalizer E rs f) = rs_Namespace rs" "rs_Name (RemoveFinalizer E rs f) = rs_Name rs"
  by (subst remove_frame, simp)+

end

end
