(* ===== verification/Manager_State.thy ===== *)
theory Manager_State
  imports Kube_Model
begin

text \<open>
  The state of the drift-detection manager (\<open>manager\<close> of \<open>pkg/drift-detection/manager.go\<close>), the
  references the code keys its maps with, and the invariant of that state. A map to \<open>*Set\<close> maps to
  the set itself: every such pointer is held by one map entry only. A cancel function is the number
  of the informer goroutine it stops; \<open>informers\<close> holds the goroutines that are running.
\<close>

section \<open>The manager\<close>

record 's manager =
  sendUpdates :: bool
  clusterNamespace :: string
  clusterName :: string
  clusterType :: string
  jobQueue :: 's
  interval :: u64
  resourceHashes :: "objref \<rightharpoonup> bytes"
  resources :: "objref \<rightharpoonup> 's"
  helmResources :: "objref \<rightharpoonup> 's"
  kustomizeResources :: "objref \<rightharpoonup> 's"
  watchers :: "gvk \<rightharpoonup> nat"
  gvkResources :: "gvk \<rightharpoonup> 's"
  informers :: "nat \<rightharpoonup> gvk"
  nextInformer :: nat

text \<open>The manager as \<open>InitializeManager\<close> creates it, before it reads the ResourceSummaries.\<close>

definition newManager ::
  "('s, 'w, 'v) ext \<Rightarrow> string \<Rightarrow> string \<Rightarrow> string \<Rightarrow> u64 \<Rightarrow> bool \<Rightarrow> 's manager" where
  "newManager E cNamespace cName cType intervalInSecond send =
     \<lparr>sendUpdates = send, clusterNamespace = cNamespace, clusterName = cName, clusterType = cType,
      jobQueue = set_new E, interval = duration_of_seconds intervalInSecond,
      resourceHashes = Map.empty, resources = Map.empty, helmResources = Map.empty,
      kustomizeResources = Map.empty, watchers = Map.empty, gvkResources = Map.empty,
      informers = Map.empty, nextInformer = 0\<rparr>"

text \<open>The map a resource type selects in the code's switch statements.\<close>

definition typeMap :: "rtype \<Rightarrow> 's manager \<Rightarrow> objref \<rightharpoonup> 's" where
  "typeMap t m = (case t of
     HelmResource \<Rightarrow> helmResources m
   | KustomizeResource \<Rightarrow> kustomizeResources m
   | Resource \<Rightarrow> resources m)"

definition set_typeMap :: "rtype \<Rightarrow> (objref \<rightharpoonup> 's) \<Rightarrow> 's manager \<Rightarrow> 's manager" where
  "set_typeMap t f m = (case t of
     HelmResource \<Rightarrow> m\<lparr>helmResources := f\<rparr>
   | KustomizeResource \<Rightarrow> m\<lparr>kustomizeResources := f\<rparr>
   | Resource \<Rightarrow> m\<lparr>resources := f\<rparr>)"

section \<open>Object references\<close>

definition getObjectRef :: "('s, 'w, 'v) ext \<Rightarrow> resource \<Rightarrow> objref" where
  "getObjectRef E r =
     (let gvk = \<lparr>gvk_Group = res_Group r, gvk_Version = res_Version r, gvk_Kind = res_Kind r\<rparr>;
          apiVersion = fst (ToAPIVersionAndKind E gvk)
      in \<lparr>ref_Namespace = res_Namespace r, ref_Name = res_Name r, ref_Kind = res_Kind r,
          ref_APIVersion = apiVersion\<rparr>)"

fun set_first_gvk :: "('s, 'w, 'v) ext \<Rightarrow> gvk list \<Rightarrow> resource_summary \<Rightarrow> resource_summary" where
  "set_first_gvk E [] obj = obj"
| "set_first_gvk E (g # gs) obj =
     (if gvk_Kind g = [] then set_first_gvk E gs obj
      else if gvk_Version g = [] \<or> gvk_Version g = APIVersionInternal E then set_first_gvk E gs obj
      else obj\<lparr>rs_GVK := g\<rparr>)"

definition addTypeInformationToObject ::
  "('s, 'w, 'v) ext \<Rightarrow> resource_summary \<Rightarrow> resource_summary outcome" where
  "addTypeInformationToObject E obj =
     (case scheme_ObjectKinds E of
        Ok gvks \<Rightarrow> Ok (set_first_gvk E gvks obj)
      | Err e \<Rightarrow> Panic
      | Panic \<Rightarrow> Panic)"

text \<open>The reference of an object, and the object with the type information it was given.\<close>

definition GetObjectReference ::
  "('s, 'w, 'v) ext \<Rightarrow> resource_summary \<Rightarrow> (objref \<times> resource_summary) outcome" where
  "GetObjectReference E obj =
     (case addTypeInformationToObject E obj of
        Ok obj' \<Rightarrow>
          (let (apiVersion, kind) = ToAPIVersionAndKind E (rs_GVK obj')
           in Ok (\<lparr>ref_Namespace = rs_Namespace obj', ref_Name = rs_Name obj', ref_Kind = kind,
                   ref_APIVersion = apiVersion\<rparr>, obj'))
      | Err e \<Rightarrow> Err e
      | Panic \<Rightarrow> Panic)"

section \<open>What the state means, and its invariant\<close>

text \<open>Who tracks what: (resource, how it was deployed, the ResourceSummary that references it).\<close>

definition tracked :: "('s, 'w, 'v) ext \<Rightarrow> 's manager \<Rightarrow> (objref \<times> rtype \<times> objref) set" where
  "tracked E m = {(r, t, q). \<exists>s. typeMap t m r = Some s \<and> q \<in> elems E s}"

definition is_tracked :: "'s manager \<Rightarrow> objref \<Rightarrow> bool" where
  "is_tracked m r \<longleftrightarrow> (\<exists>t. typeMap t m r \<noteq> None)"

text \<open>No entry of a tracking map is left with an empty set of consumers.\<close>

definition consumers_inv :: "('s, 'w, 'v) ext \<Rightarrow> 's manager \<Rightarrow> bool" where
  "consumers_inv E m \<longleftrightarrow> (\<forall>t r s. typeMap t m r = Some s \<longrightarrow> elems E s \<noteq> {})"

text \<open>Hashes are kept for tracked resources only; a GVK's set holds resources of that GVK with a hash.\<close>

definition hashes_inv :: "('s, 'w, 'v) ext \<Rightarrow> 's manager \<Rightarrow> bool" where
  "hashes_inv E m \<longleftrightarrow>
     (\<forall>r. resourceHashes m r \<noteq> None \<longrightarrow> is_tracked m r) \<and>
     (\<forall>g s r. gvkResources m g = Some s \<longrightarrow> r \<in> elems E s \<longrightarrow>
        resourceHashes m r \<noteq> None \<and> ref_GroupVersionKind E r = g)"

text \<open>Watchers exist for GVKs in use only, and they are exactly the informers that run.\<close>

definition watchers_inv :: "'s manager \<Rightarrow> bool" where
  "watchers_inv m \<longleftrightarrow>
     (\<forall>g. watchers m g \<noteq> None \<longrightarrow> gvkResources m g \<noteq> None) \<and>
     (\<forall>g i. watchers m g = Some i \<longleftrightarrow> informers m i = Some g) \<and>
     (\<forall>i. informers m i \<noteq> None \<longrightarrow> i < nextInformer m)"

definition manager_inv :: "('s, 'w, 'v) ext \<Rightarrow> 's manager \<Rightarrow> bool" where
  "manager_inv E m \<longleftrightarrow> consumers_inv E m \<and> hashes_inv E m \<and> watchers_inv m"

text \<open>
  A resource holds the watcher of its GVK: it is in the set that keeps the watcher running, and there
  is one. (Notifications arrive for every object of a GVK with a watcher, whether it is in the set or
  not; a resource that is not in the set does not keep the watcher from being stopped.)
\<close>

definition watched :: "('s, 'w, 'v) ext \<Rightarrow> 's manager \<Rightarrow> objref \<Rightarrow> bool" where
  "watched E m r \<longleftrightarrow>
     (\<exists>s. gvkResources m (ref_GroupVersionKind E r) = Some s \<and> r \<in> elems E s) \<and>
     watchers m (ref_GroupVersionKind E r) \<noteq> None"

definition all_watched :: "('s, 'w, 'v) ext \<Rightarrow> 's manager \<Rightarrow> bool" where
  "all_watched E m \<longleftrightarrow>
     (\<forall>r. resourceHashes m r \<noteq> None \<longrightarrow> watched E m r) \<and>
     (\<forall>g. gvkResources m g \<noteq> None \<longrightarrow> watchers m g \<noteq> None)"

section \<open>Lemmas\<close>

lemma typeMap_set_typeMap [simp]:
  "typeMap t (set_typeMap t' f m) = (if t = t' then f else typeMap t m)"
  by (cases t; cases t') (simp_all add: typeMap_def set_typeMap_def)

text \<open>Changing one tracking map leaves the rest of the manager alone, and the other way round.\<close>

lemma set_typeMap_frame [simp]:
  "jobQueue (set_typeMap t f m) = jobQueue m"
  "interval (set_typeMap t f m) = interval m"
  "resourceHashes (set_typeMap t f m) = resourceHashes m"
  "watchers (set_typeMap t f m) = watchers m"
  "gvkResources (set_typeMap t f m) = gvkResources m"
  "informers (set_typeMap t f m) = informers m"
  "nextInformer (set_typeMap t f m) = nextInformer m"
  by (cases t; simp add: set_typeMap_def)+

lemma typeMap_frame [simp]:
  "typeMap t (m\<lparr>jobQueue := q\<rparr>) = typeMap t m"
  "typeMap t (m\<lparr>resourceHashes := h\<rparr>) = typeMap t m"
  "typeMap t (m\<lparr>watchers := w\<rparr>) = typeMap t m"
  "typeMap t (m\<lparr>gvkResources := g\<rparr>) = typeMap t m"
  "typeMap t (m\<lparr>informers := i\<rparr>) = typeMap t m"
  "typeMap t (m\<lparr>nextInformer := n\<rparr>) = typeMap t m"
  by (cases t; simp add: typeMap_def)+

text \<open>The invariant and the tracking relation read the state through the maps only.\<close>

lemma tracked_cong:
  "(\<And>t. typeMap t m' = typeMap t m) \<Longrightarrow> tracked E m' = tracked E m"
  by (simp add: tracked_def)

lemma is_tracked_cong:
  "(\<And>t. typeMap t m' = typeMap t m) \<Longrightarrow> is_tracked m' = is_tracked m"
  by (simp add: is_tracked_def fun_eq_iff)

lemma consumers_inv_cong:
  "(\<And>t. typeMap t m' = typeMap t m) \<Longrightarrow> consumers_inv E m' = consumers_inv E m"
  by (simp add: consumers_inv_def)

lemma watchers_inv_cong:
  "watchers m' = watchers m \<Longrightarrow> gvkResources m' = gvkResources m \<Longrightarrow> informers m' = informers m
    \<Longrightarrow> nextInformer m' = nextInformer m \<Longrightarrow> watchers_inv m' = watchers_inv m"
  by (simp add: watchers_inv_def)

lemma watchers_invI:
  assumes "\<And>g i. watchers m g = Some i \<Longrightarrow> gvkResources m g \<noteq> None"
    and "\<And>g i. watchers m g = Some i \<longleftrightarrow> informers m i = Some g"
    and "\<And>g i. watchers m g = Some i \<Longrightarrow> i < nextInformer m"
  shows "watchers_inv m"
  using assms unfolding watchers_inv_def by (metis option.exhaust)

lemma watchers_invD:
  assumes "watchers_inv m"
  shows "watchers m g = Some i \<Longrightarrow> gvkResources m g \<noteq> None"
    and "watchers m g = Some i \<longleftrightarrow> informers m i = Some g"
    and "watchers m g = Some i \<Longrightarrow> i < nextInformer m"
  using assms unfolding watchers_inv_def by (metis option.distinct(1))+

text \<open>Only which GVKs are in use matters, not their sets.\<close>

lemma watchers_inv_gvkResources:
  assumes "watchers_inv m" and "dom (gvkResources m) \<subseteq> dom f"
  shows "watchers_inv (m\<lparr>gvkResources := f\<rparr>)"
proof (rule watchers_invI)
  fix g i
  show "watchers (m\<lparr>gvkResources := f\<rparr>) g = Some i \<Longrightarrow> gvkResources (m\<lparr>gvkResources := f\<rparr>) g \<noteq> None"
    using watchers_invD(1) [OF assms(1), of g i] assms(2) by auto
qed (use watchers_invD(2,3) [OF assms(1)] in simp_all)

lemma hashes_inv_cong:
  assumes "\<And>t. typeMap t m' = typeMap t m" and "gvkResources m' = gvkResources m"
    and "\<And>r. resourceHashes m' r = None \<longleftrightarrow> resourceHashes m r = None"
  shows "hashes_inv E m' = hashes_inv E m"
  using assms by (simp add: hashes_inv_def is_tracked_cong [OF assms(1)])

lemma manager_inv_jobQueue [simp]: "manager_inv E (m\<lparr>jobQueue := q\<rparr>) = manager_inv E m"
  unfolding manager_inv_def
  using consumers_inv_cong [of "m\<lparr>jobQueue := q\<rparr>" m E] hashes_inv_cong [of "m\<lparr>jobQueue := q\<rparr>" m E]
    watchers_inv_cong [of "m\<lparr>jobQueue := q\<rparr>" m]
  by simp

lemma tracked_jobQueue [simp]: "tracked E (m\<lparr>jobQueue := q\<rparr>) = tracked E m"
  by (rule tracked_cong) simp

lemma is_tracked_iff:
  "consumers_inv E m \<Longrightarrow> is_tracked m r \<longleftrightarrow> (\<exists>t q. (r, t, q) \<in> tracked E m)"
  by (auto simp: is_tracked_def tracked_def consumers_inv_def)
     (metis ex_in_conv option.exhaust)

lemma typeMap_newManager [simp]: "typeMap t (newManager E a b c d e) = Map.empty"
  by (cases t) (simp_all add: typeMap_def newManager_def)

lemma newManager_inv [inv_intro]: "manager_inv E (newManager E a b c d e)"
  by (simp add: manager_inv_def consumers_inv_def hashes_inv_def watchers_inv_def)
    (simp add: newManager_def)

lemma tracked_newManager [simp]: "tracked E (newManager E a b c d e) = {}"
  by (simp add: tracked_def)

text \<open>A reference depends on the object's type, namespace and name; asking twice changes nothing.\<close>

lemma set_first_gvk_idem: "set_first_gvk E gs (set_first_gvk E gs obj) = set_first_gvk E gs obj"
proof (induction gs)
  case (Cons g gs)
  then show ?case by simp
qed simp

lemma set_first_gvk_frame [simp]:
  "rs_Namespace (set_first_gvk E gs obj) = rs_Namespace obj"
  "rs_Name (set_first_gvk E gs obj) = rs_Name obj"
  "rs_DeletionTimestamp (set_first_gvk E gs obj) = rs_DeletionTimestamp obj"
  "rs_Finalizers (set_first_gvk E gs obj) = rs_Finalizers obj"
  "rs_Spec (set_first_gvk E gs obj) = rs_Spec obj"
  "rs_Status (set_first_gvk E gs obj) = rs_Status obj"
  by (induction gs) auto

lemma GetObjectReference_not_Err [simp]: "GetObjectReference E obj \<noteq> Err e"
  by (auto simp: GetObjectReference_def addTypeInformationToObject_def split: outcome.splits prod.splits)

lemma GetObjectReference_frame:
  assumes "GetObjectReference E obj = Ok (q, obj')"
  shows "rs_Namespace obj' = rs_Namespace obj" and "rs_Name obj' = rs_Name obj"
    and "rs_DeletionTimestamp obj' = rs_DeletionTimestamp obj"
    and "rs_Finalizers obj' = rs_Finalizers obj"
    and "rs_Spec obj' = rs_Spec obj" and "rs_Status obj' = rs_Status obj"
    and "ref_Namespace q = rs_Namespace obj" and "ref_Name q = rs_Name obj"
  using assms
  by (auto simp: GetObjectReference_def addTypeInformationToObject_def split: outcome.splits prod.splits)

lemma GetObjectReference_idem:
  assumes "GetObjectReference E obj = Ok (q, obj')"
  shows "GetObjectReference E obj' = Ok (q, obj')"
  using assms
  by (auto simp: GetObjectReference_def addTypeInformationToObject_def set_first_gvk_idem
      split: outcome.splits prod.splits)

lemmas [run] = newManager_def typeMap_def set_typeMap_def GetObjectReference_def
  addTypeInformationToObject_def getObjectRef_def

end
