(* ===== verification/Reference_Cluster.thy ===== *)
theory Reference_Cluster
  imports Kube_Model "HOL-Library.AList" "HOL-Library.Multiset"
begin

text \<open>
  An executable instance of the code outside the repository: sets as lists, an API server in memory,
  the string formats of the API machinery. It shows that the assumptions of the interfaces hold
  together, and it is the input on which the theorems of the development are evaluated.
\<close>

section \<open>The API machinery's string formats\<close>

definition slash :: char where
  "slash = CHR 0x2F"

definition ref_ToAPIVersionAndKind :: "gvk \<Rightarrow> string \<times> string" where
  "ref_ToAPIVersionAndKind g =
     (if gvk_Group g = [] then (gvk_Version g, gvk_Kind g)
      else (gvk_Group g @ slash # gvk_Version g, gvk_Kind g))"

definition split_slash :: "string \<Rightarrow> string \<times> string" where
  "split_slash s =
     (if slash \<in> set s
      then (takeWhile (\<lambda>c. c \<noteq> slash) s, tl (dropWhile (\<lambda>c. c \<noteq> slash) s))
      else ([], s))"

definition ref_FromAPIVersionAndKind :: "objref \<Rightarrow> gvk" where
  "ref_FromAPIVersionAndKind r =
     (let (g, v) = split_slash (ref_APIVersion r)
      in \<lparr>gvk_Group = g, gvk_Version = v, gvk_Kind = ref_Kind r\<rparr>)"

definition ref_key :: "'v unstructured \<Rightarrow> string" where
  "ref_key u = (if u_Namespace u = [] then u_Name u else u_Namespace u @ slash # u_Name u)"

section \<open>An API server in memory\<close>

datatype ref_value = RText string | RSummary resource_summary

record ref_cluster =
  c_objects :: "((gvk \<times> string \<times> string) \<times> ref_value unstructured) list"
  c_summaries :: "((string \<times> string) \<times> resource_summary) list"
  c_version :: "string option"

text \<open>Text as it is stored: a byte that is not ASCII is replaced.\<close>

definition ref_json :: "string \<Rightarrow> string" where
  "ref_json s = map (\<lambda>c. if (of_char c :: nat) < 128 then c else CHR ''?'') s"

definition ref_stored :: "rs_status \<Rightarrow> rs_status" where
  "ref_stored st =
     (let text = map (\<lambda>rh. rh\<lparr>rh_Hash := ref_json (rh_Hash rh)\<rparr>)
      in st\<lparr>ResourceHashes := text (ResourceHashes st), KustomizeResourceHashes := text (KustomizeResourceHashes st),
            HelmResourceHashes := text (HelmResourceHashes st)\<rparr>)"

text \<open>The ResourceSummaries it stores, each under its own namespace and name.\<close>

definition ref_summaries :: "ref_cluster \<Rightarrow> string \<times> string \<rightharpoonup> resource_summary" where
  "ref_summaries w k = (case map_of (c_summaries w) k of
     Some rs \<Rightarrow> if (rs_Namespace rs, rs_Name rs) = k then Some (rs\<lparr>rs_Status := ref_stored (rs_Status rs)\<rparr>) else None
   | None \<Rightarrow> None)"

definition not_found :: goerr where
  "not_found = GoErr CNotFound ''not found''"

definition rs_kind :: gvk where
  "rs_kind = \<lparr>gvk_Group = ''lib.projectsveltos.io'', gvk_Version = ''v1beta1'', gvk_Kind = ''ResourceSummary''\<rparr>"

definition unstructured_of_summary :: "resource_summary \<Rightarrow> ref_value unstructured" where
  "unstructured_of_summary rs =
     \<lparr>u_GVK = rs_kind, u_Namespace = rs_Namespace rs, u_Name = rs_Name rs, u_Labels = None,
      u_Annotations = None, u_Content = [(''object'', RSummary rs)]\<rparr>"

definition ref_dr_Get ::
  "gvk \<Rightarrow> string \<Rightarrow> string \<Rightarrow> ref_cluster \<Rightarrow> ref_value unstructured outcome \<times> ref_cluster" where
  "ref_dr_Get g ns n w =
     ((if g = rs_kind
       then (case ref_summaries w (ns, n) of
               None \<Rightarrow> Err not_found | Some rs \<Rightarrow> Ok (unstructured_of_summary rs))
       else (case map_of (c_objects w) (g, ns, n) of None \<Rightarrow> Err not_found | Some u \<Rightarrow> Ok u)), w)"

definition ref_FromUnstructured :: "ref_value unstructured \<Rightarrow> resource_summary outcome" where
  "ref_FromUnstructured u =
     (case map_of (u_Content u) ''object'' of
        Some (RSummary rs) \<Rightarrow> Ok rs
      | _ \<Rightarrow> Err (GoErr COther ''not a ResourceSummary''))"

definition ref_client_Get :: "string \<Rightarrow> string \<Rightarrow> ref_cluster \<Rightarrow> resource_summary outcome \<times> ref_cluster" where
  "ref_client_Get ns n w =
     ((case ref_summaries w (ns, n) of None \<Rightarrow> Err not_found | Some rs \<Rightarrow> Ok rs), w)"

definition ref_Status_Update :: "resource_summary \<Rightarrow> ref_cluster \<Rightarrow> unit outcome \<times> ref_cluster" where
  "ref_Status_Update rs w =
     (case ref_summaries w (rs_Namespace rs, rs_Name rs) of
        None \<Rightarrow> (Err not_found, w)
      | Some old \<Rightarrow> (Ok (), w\<lparr>c_summaries := AList.update (rs_Namespace rs, rs_Name rs)
           (old\<lparr>rs_Status := ref_stored (rs_Status rs)\<rparr>) (c_summaries w)\<rparr>))"

definition ref_patch ::
  "resource_summary \<Rightarrow> resource_summary \<Rightarrow> ref_cluster \<Rightarrow> (unit outcome \<times> resource_summary) \<times> ref_cluster" where
  "ref_patch before after w =
     (case ref_summaries w (rs_Namespace after, rs_Name after) of
        None \<Rightarrow> ((Err not_found, after), w)
      | Some old \<Rightarrow>
          (let new = old\<lparr>
             rs_Finalizers := if rs_Finalizers before = rs_Finalizers after then rs_Finalizers old else rs_Finalizers after,
             rs_Status := ref_stored (if rs_Status before = rs_Status after then rs_Status old else rs_Status after)\<rparr>
           in ((Ok (), after), w\<lparr>c_summaries :=
                AList.update (rs_Namespace after, rs_Name after) new (c_summaries w)\<rparr>)))"

section \<open>The instance\<close>

definition ref_ext :: "(objref list, ref_cluster, ref_value) ext" where
  "ref_ext = \<lparr>
     set_new = [],
     set_Insert = (\<lambda>x s. x # s),
     set_Erase = removeAll,
     set_Append = (\<lambda>s s'. s @ s'),
     set_Difference = (\<lambda>s s'. filter (\<lambda>x. x \<notin> set s') (remdups s)),
     set_Len = (\<lambda>s. length (remdups s)),
     set_Items = remdups,
     ToAPIVersionAndKind = ref_ToAPIVersionAndKind,
     ref_GroupVersionKind = ref_FromAPIVersionAndKind,
     APIVersionInternal = ''__internal'',
     scheme_ObjectKinds = Ok [rs_kind],
     FromUnstructured = ref_FromUnstructured,
     MetaNamespaceKeyFunc = (\<lambda>obj. case obj of Object u \<Rightarrow> Ok (ref_key u)
        | DeletedFinalStateUnknown _ _ \<Rightarrow> Err (GoErr COther ''object has no meta'')),
     SplitMetaNamespaceKey = split_slash,
     AsCode_map = (\<lambda>kvs. concat (map (\<lambda>(k, v). k @ CHR 0x3D # v @ [CHR 0x3B]) (sort_key fst kvs))),
     AsCode_string = (\<lambda>s. s @ [CHR 0x3B]),
     ForHash = (\<lambda>v. case v of RText s \<Rightarrow> s | RSummary rs \<Rightarrow> rs_Name rs),
     json_string = ref_json,
     RunUnstructured = (\<lambda>patches us. Ok us),
     GetDynamicResourceInterface = (\<lambda>g ns w. (Ok (), w)),
     dr_Get = ref_dr_Get,
     client_Get = ref_client_Get,
     client_List = (\<lambda>w. (Ok (map snd (c_summaries w)), w)),
     Status_Update = ref_Status_Update,
     dynamic_NewForConfig = (\<lambda>w. (Ok (), w)),
     NewDiscoveryClientForConfig = (\<lambda>w. (Ok (), w)),
     GetAPIGroupResources = (\<lambda>w. (Ok (\<lambda>g. Ok \<lparr>mapping_Resource = gvk_Kind g, mapping_Namespaced = True\<rparr>), w)),
     AddEventHandler = (\<lambda>g w. (Ok (), w)),
     deferred_RESTMapping = (\<lambda>g w. (Ok \<lparr>mapping_Resource = gvk_Kind g, mapping_Namespaced = True\<rparr>, w)),
     StoreDriftDetectionVersion = (\<lambda>v w. (Ok (), w\<lparr>c_version := Some v\<rparr>)),
     GetKubernetesVersion = (\<lambda>w. (Ok ''v1.31.0'', w)),
     ResourceSummaryFinalizer = ''resourcesummary.finalizer'',
     ContainsFinalizer = (\<lambda>rs f. f \<in> set (rs_Finalizers rs)),
     AddFinalizer = (\<lambda>rs f. rs\<lparr>rs_Finalizers := List.insert f (rs_Finalizers rs)\<rparr>),
     RemoveFinalizer = (\<lambda>rs f. rs\<lparr>rs_Finalizers := removeAll f (rs_Finalizers rs)\<rparr>),
     patch_NewHelper = (\<lambda>rs w. (Ok (), w)),
     patch_Patch = ref_patch\<rparr>"

section \<open>Example objects\<close>

text \<open>A Deployment and a ConfigMap, and a ResourceSummary that references them.\<close>

definition ex_deployment :: resource where
  "ex_deployment = \<lparr>res_Namespace = ''prod'', res_Name = ''web'', res_Group = ''apps'',
     res_Kind = ''Deployment'', res_Version = ''v1'', res_IgnoreForConfigurationDrift = False\<rparr>"

definition ex_configmap :: resource where
  "ex_configmap = \<lparr>res_Namespace = [], res_Name = ''settings'', res_Group = [],
     res_Kind = ''ConfigMap'', res_Version = ''v1'', res_IgnoreForConfigurationDrift = False\<rparr>"

definition ex_deployment_ref :: objref where
  "ex_deployment_ref = \<lparr>ref_Namespace = ''prod'', ref_Name = ''web'', ref_Kind = ''Deployment'',
     ref_APIVersion = ''apps/v1''\<rparr>"

definition ex_deployment_gvk :: gvk where
  "ex_deployment_gvk = \<lparr>gvk_Group = ''apps'', gvk_Version = ''v1'', gvk_Kind = ''Deployment''\<rparr>"

definition ex_deployment_obj :: "ref_value unstructured" where
  "ex_deployment_obj = \<lparr>u_GVK = ex_deployment_gvk, u_Namespace = ''prod'', u_Name = ''web'',
     u_Labels = Some [(''app'', ''web'')], u_Annotations = None,
     u_Content = [(''spec'', RText ''replicas: 3''), (''status'', RText ''ready: 3'')]\<rparr>"

definition ex_status :: rs_status where
  "ex_status = \<lparr>ResourcesChanged = False, KustomizeResourcesChanged = False, HelmResourcesChanged = False,
     ResourceHashes = [], KustomizeResourceHashes = [], HelmResourceHashes = []\<rparr>"

definition ex_summary :: resource_summary where
  "ex_summary = \<lparr>rs_GVK = rs_kind, rs_Namespace = ''projectsveltos'', rs_Name = ''rs1'',
     rs_DeletionTimestamp = None, rs_Finalizers = [],
     rs_Spec = \<lparr>spec_Resources = [ex_deployment], spec_KustomizeResources = [],
       spec_ChartResources = [], spec_Patches = []\<rparr>,
     rs_Status = ex_status\<rparr>"

definition ex_summary_ref :: objref where
  "ex_summary_ref = \<lparr>ref_Namespace = ''projectsveltos'', ref_Name = ''rs1'',
     ref_Kind = ''ResourceSummary'', ref_APIVersion = ''lib.projectsveltos.io/v1beta1''\<rparr>"

definition ex_cluster :: ref_cluster where
  "ex_cluster = \<lparr>c_objects = [((ex_deployment_gvk, ''prod'', ''web''), ex_deployment_obj)],
     c_summaries = [((''projectsveltos'', ''rs1''), ex_summary)], c_version = None\<rparr>"

section \<open>The instance meets the interfaces\<close>

lemma ref_ext_sel [run]:
  "set_new ref_ext = []" "set_Insert ref_ext x s = x # s" "set_Erase ref_ext x s = removeAll x s"
  "set_Append ref_ext s s' = s @ s'"
  "set_Difference ref_ext s s' = filter (\<lambda>x. x \<notin> set s') (remdups s)"
  "set_Len ref_ext s = length (remdups s)" "set_Items ref_ext s = remdups s"
  "ToAPIVersionAndKind ref_ext = ref_ToAPIVersionAndKind"
  "ref_GroupVersionKind ref_ext = ref_FromAPIVersionAndKind"
  "APIVersionInternal ref_ext = ''__internal''" "scheme_ObjectKinds ref_ext = Ok [rs_kind]"
  "FromUnstructured ref_ext = ref_FromUnstructured"
  "MetaNamespaceKeyFunc ref_ext (Object u) = Ok (ref_key u)"
  "MetaNamespaceKeyFunc ref_ext (DeletedFinalStateUnknown k u) = Err (GoErr COther ''object has no meta'')"
  "SplitMetaNamespaceKey ref_ext = split_slash"
  "RunUnstructured ref_ext ps us = Ok us" "json_string ref_ext = ref_json"
  "GetDynamicResourceInterface ref_ext g ns w = (Ok (), w)" "dr_Get ref_ext = ref_dr_Get"
  "client_Get ref_ext = ref_client_Get" "client_List ref_ext w = (Ok (map snd (c_summaries w)), w)"
  "Status_Update ref_ext = ref_Status_Update"
  "dynamic_NewForConfig ref_ext w = (Ok (), w)" "NewDiscoveryClientForConfig ref_ext w = (Ok (), w)"
  "GetAPIGroupResources ref_ext w =
     (Ok (\<lambda>g. Ok \<lparr>mapping_Resource = gvk_Kind g, mapping_Namespaced = True\<rparr>), w)"
  "AddEventHandler ref_ext g w = (Ok (), w)"
  "deferred_RESTMapping ref_ext g w = (Ok \<lparr>mapping_Resource = gvk_Kind g, mapping_Namespaced = True\<rparr>, w)"
  "StoreDriftDetectionVersion ref_ext v w = (Ok (), w\<lparr>c_version := Some v\<rparr>)"
  "GetKubernetesVersion ref_ext w = (Ok ''v1.31.0'', w)"
  "ResourceSummaryFinalizer ref_ext = ''resourcesummary.finalizer''"
  "ContainsFinalizer ref_ext rs f \<longleftrightarrow> f \<in> set (rs_Finalizers rs)"
  "AddFinalizer ref_ext rs f = rs\<lparr>rs_Finalizers := List.insert f (rs_Finalizers rs)\<rparr>"
  "RemoveFinalizer ref_ext rs f = rs\<lparr>rs_Finalizers := removeAll f (rs_Finalizers rs)\<rparr>"
  "patch_NewHelper ref_ext rs w = (Ok (), w)" "patch_Patch ref_ext = ref_patch"
  by (simp_all add: ref_ext_def)

lemmas [run] = ref_summaries_def ref_stored_def ref_json_def slash_def ref_ToAPIVersionAndKind_def split_slash_def ref_FromAPIVersionAndKind_def
  ref_key_def not_found_def rs_kind_def unstructured_of_summary_def ref_dr_Get_def
  ref_FromUnstructured_def ref_client_Get_def ref_Status_Update_def ref_patch_def
  ex_deployment_def ex_configmap_def ex_deployment_ref_def ex_deployment_gvk_def
  ex_deployment_obj_def ex_status_def ex_summary_def ex_summary_ref_def ex_cluster_def
  and_then_def and_then_pure_def Let_def

lemma takeWhile_slash: "slash \<notin> set a \<Longrightarrow> takeWhile (\<lambda>c. c \<noteq> slash) (a @ slash # b) = a"
  by (induction a) auto

lemma dropWhile_slash: "slash \<notin> set a \<Longrightarrow> dropWhile (\<lambda>c. c \<noteq> slash) (a @ slash # b) = slash # b"
  by (induction a) auto

lemma split_slash_append: "slash \<notin> set a \<Longrightarrow> split_slash (a @ slash # b) = (a, b)"
  by (simp add: split_slash_def takeWhile_slash dropWhile_slash)

interpretation ref_set: libset ref_ext
  by unfold_locales (auto simp: ref_ext_def elems_def)

interpretation ref_api: apimachinery ref_ext
proof
  fix g ns n
  assume "wf_gvk g"
  then have "slash \<notin> set (gvk_Group g)" and "slash \<notin> set (gvk_Version g)"
    by (simp_all add: wf_gvk_def wf_name_def slash_def)
  then show "ref_GroupVersionKind ref_ext \<lparr>ref_Namespace = ns, ref_Name = n, ref_Kind = gvk_Kind g,
      ref_APIVersion = fst (ToAPIVersionAndKind ref_ext g)\<rparr> = g"
    by (simp add: ref_ext_def ref_ToAPIVersionAndKind_def ref_FromAPIVersionAndKind_def
        split_slash_append) (simp add: split_slash_def)
next
  fix u :: "ref_value unstructured" and k
  show "\<exists>k. MetaNamespaceKeyFunc ref_ext (Object u) = Ok k" by (simp add: ref_ext_def)
  assume "wf_name (u_Namespace u)" and "wf_name (u_Name u)"
    and "MetaNamespaceKeyFunc ref_ext (Object u) = Ok k"
  then show "SplitMetaNamespaceKey ref_ext k = (u_Namespace u, u_Name u)"
    by (auto simp: ref_ext_def ref_key_def wf_name_def slash_def [symmetric] split_slash_append split: if_splits)
      (simp add: split_slash_def)
qed

lemma ref_summaries_named: "ref_summaries w (ns, n) = Some rs \<Longrightarrow> rs_Namespace rs = ns \<and> rs_Name rs = n"
  by (auto simp: ref_summaries_def split: option.splits if_splits)

lemma ref_json_again [simp]: "ref_json (ref_json s) = ref_json s"
  by (simp add: ref_json_def)

lemma ref_stored_again [simp]: "ref_stored (ref_stored st) = ref_stored st"
  by (simp add: ref_stored_def Let_def o_def)

lemma ref_json_status: "json_status ref_ext st = ref_stored st"
  by (simp add: json_status_def json_hash_def [abs_def] ref_stored_def ref_ext_def Let_def)

lemma ref_summaries_stored: "ref_summaries w k = Some rs \<Longrightarrow> ref_stored (rs_Status rs) = rs_Status rs"
  by (auto simp: ref_summaries_def split: option.splits if_splits)

lemma ref_summaries_update:
  assumes "(rs_Namespace rs, rs_Name rs) = k" and "ref_stored (rs_Status rs) = rs_Status rs"
  shows "ref_summaries (w\<lparr>c_summaries := AList.update k rs (c_summaries w)\<rparr>) = (ref_summaries w)(k \<mapsto> rs)"
  using assms by (auto simp: ref_summaries_def update_conv' fun_eq_iff)

lemma ref_summaries_patch:
  assumes "ref_summaries w k = Some old"
  shows "ref_summaries (w\<lparr>c_summaries := AList.update k (old\<lparr>rs_Finalizers := fs, rs_Status := ref_stored st\<rparr>) (c_summaries w)\<rparr>) =
    (ref_summaries w)(k \<mapsto> old\<lparr>rs_Finalizers := fs, rs_Status := ref_stored st\<rparr>)"
  by (rule ref_summaries_update) (use assms ref_summaries_named [of w "fst k" "snd k" old] in auto)

interpretation ref_render: renderer ref_ext
proof
  fix kvs kvs' :: "(string \<times> string) list"
  assume d: "distinct (map fst kvs)" "distinct (map fst kvs')" and eq: "map_of kvs = map_of kvs'"
  have "x \<in> set kvs \<longleftrightarrow> x \<in> set kvs'" for x
    using eq map_of_eq_Some_iff [OF d(1), of "fst x" "snd x"] map_of_eq_Some_iff [OF d(2), of "fst x" "snd x"] by simp
  then have "set kvs = set kvs'" by blast
  then have "mset kvs = mset kvs'" using d by (simp add: set_eq_iff_mset_eq_distinct distinct_map)
  then have "sort_key fst kvs = sort_key fst kvs'"
    by (intro sort_key_inj_key_eq) (use d in \<open>simp_all add: distinct_map\<close>)
  then show "AsCode_map ref_ext kvs = AsCode_map ref_ext kvs'" by (simp add: ref_ext_def)
qed

interpretation ref_server: api_server ref_ext ref_summaries rs_kind
proof
  fix rs w w' old
  assume "Status_Update ref_ext rs w = (Ok (), w')"
    and "ref_summaries w (rs_Namespace rs, rs_Name rs) = Some old"
  then show "ref_summaries w' = (ref_summaries w)((rs_Namespace rs, rs_Name rs) \<mapsto> old\<lparr>rs_Status := json_status ref_ext (rs_Status rs)\<rparr>)"
    by (auto simp: ref_json_status ref_ext_sel ref_Status_Update_def ref_summaries_update ref_summaries_named)
next
  fix w ns n rs
  assume "ref_summaries w (ns, n) = Some rs"
  then show "json_status ref_ext (rs_Status rs) = rs_Status rs" by (simp add: ref_json_status ref_summaries_stored)
qed (auto simp: ref_ext_def ref_dr_Get_def ref_client_Get_def ref_FromUnstructured_def
    unstructured_of_summary_def not_found_def IsNotFound_def ref_summaries_named split: option.splits if_splits)

interpretation ref_patcher: patch_helper ref_ext ref_summaries rs_kind
proof
  fix rs rs' :: resource_summary and w w' :: ref_cluster and y
  assume "patch_Patch ref_ext rs rs w = ((y, rs'), w')"
  then show "ref_summaries w' = ref_summaries w"
    by (auto simp: ref_ext_def ref_patch_def ref_summaries_named ref_summaries_stored ref_summaries_update fun_upd_idem
        split: option.splits)
next
  fix before after rs' :: resource_summary and w w' :: ref_cluster and y and k
  assume "patch_Patch ref_ext before after w = ((y, rs'), w')" and "k \<noteq> (rs_Namespace after, rs_Name after)"
  then show "ref_summaries w' k = ref_summaries w k"
    by (auto simp: ref_ext_def ref_patch_def ref_summaries_named ref_summaries_patch ref_summaries_stored Let_def split: option.splits)
qed (auto simp: ref_ext_def ref_patch_def ref_summaries_named ref_summaries_patch ref_summaries_stored Let_def split: option.splits)

end
