(* ===== verification/Watcher.thy ===== *)
theory Watcher
  imports Manager_State Reference_Cluster
begin

text \<open>
  The watchers (\<open>pkg/drift-detection/watcher.go\<close>): one informer per GVK in use, and the reaction to
  its notifications, which queues the resource for evaluation (\<open>checkForConfigurationDrift\<close> of
  \<open>manager.go\<close>).
\<close>

section \<open>Starting and stopping an informer\<close>

record gvr =
  gvr_Group :: string
  gvr_Version :: string
  gvr_Resource :: string

text \<open>\<open>NewDiscoveryClientForConfigOrDie\<close> panics where its namesake returns an error.\<close>

definition NewDiscoveryClientForConfigOrDie :: "('s, 'w, 'v) ext \<Rightarrow> 'w \<Rightarrow> unit outcome \<times> 'w" where
  "NewDiscoveryClientForConfigOrDie E w =
     (case NewDiscoveryClientForConfig E w of (Err e, w') \<Rightarrow> (Panic, w') | r \<Rightarrow> r)"

definition getDynamicInformer :: "('s, 'w, 'v) ext \<Rightarrow> gvk \<Rightarrow> 'w \<Rightarrow> gvr outcome \<times> 'w" where
  "getDynamicInformer E g w =
     and_then (dynamic_NewForConfig E w) (\<lambda>_ w1.
     and_then (NewDiscoveryClientForConfigOrDie E w1) (\<lambda>_ w2.
     and_then (GetAPIGroupResources E w2) (\<lambda>mapper w3.
     and_then_pure (mapper g) w3 (\<lambda>mapping.
       (Ok \<lparr>gvr_Group = gvk_Group g, gvr_Version = gvk_Version g,
            gvr_Resource = mapping_Resource mapping\<rparr>, w3)))))"

definition startWatcher ::
  "('s, 'w, 'v) ext \<Rightarrow> gvk \<Rightarrow> 's manager \<times> 'w \<Rightarrow> unit outcome \<times> 's manager \<times> 'w" where
  "startWatcher E g = (\<lambda>(m, w).
     if watchers m g \<noteq> None then (Ok (), m, w)
     else (case getDynamicInformer E g w of
        (Ok _, w') \<Rightarrow>
          (Ok (), m\<lparr>watchers := (watchers m)(g \<mapsto> nextInformer m),
                    informers := (informers m)(nextInformer m \<mapsto> g),
                    nextInformer := Suc (nextInformer m)\<rparr>, w')
      | (Err e, w') \<Rightarrow> (Err e, m, w')
      | (Panic, w') \<Rightarrow> (Panic, m, w')))"

text \<open>Calling the cancel function ends the informer goroutine.\<close>

definition stopWatcher :: "gvk \<Rightarrow> 's manager \<Rightarrow> 's manager" where
  "stopWatcher g m =
     (case watchers m g of
        Some i \<Rightarrow> m\<lparr>informers := (informers m)(i := None)\<rparr>
      | None \<Rightarrow> m)"

section \<open>Reacting to notifications\<close>

definition checkForConfigurationDrift :: "('s, 'w, 'v) ext \<Rightarrow> objref \<Rightarrow> 's manager \<Rightarrow> 's manager" where
  "checkForConfigurationDrift E r m = m\<lparr>jobQueue := set_Insert E r (jobQueue m)\<rparr>"

text \<open>
  The two loops of \<open>react\<close>: over the ResourceSummaries that reference the object as a plain
  resource, which returns after the first one, then over those that reference it through a Helm
  chart.
\<close>

definition react ::
  "('s, 'w, 'v) ext \<Rightarrow> gvk \<Rightarrow> 'v notified \<Rightarrow> 's manager \<Rightarrow> 's manager" where
  "react E g obj m =
     (case MetaNamespaceKeyFunc E obj of
        Ok key \<Rightarrow>
          (let (namespace, name) = SplitMetaNamespaceKey E key;
               objRef = \<lparr>ref_Namespace = namespace, ref_Name = name, ref_Kind = gvk_Kind g,
                         ref_APIVersion = fst (ToAPIVersionAndKind E g)\<rparr>;
               helmLoop = (\<lambda>m. case helmResources m objRef of
                   Some v \<Rightarrow> fold (\<lambda>_. checkForConfigurationDrift E objRef) (set_Items E v) m
                 | None \<Rightarrow> m)
           in case resources m objRef of
                Some v \<Rightarrow> (case set_Items E v of
                    _ # _ \<Rightarrow> checkForConfigurationDrift E objRef m
                  | [] \<Rightarrow> helmLoop m)
              | None \<Rightarrow> helmLoop m)
      | _ \<Rightarrow> m)"

datatype 'v event =
    AddEvent "'v notified"
  | DeleteEvent "'v notified"
  | UpdateEvent "'v notified" "'v notified"

fun handleEvent :: "('s, 'w, 'v) ext \<Rightarrow> gvk \<Rightarrow> 'v event \<Rightarrow> 's manager \<Rightarrow> 's manager" where
  "handleEvent E g (AddEvent obj) m = m"
| "handleEvent E g (DeleteEvent obj) m = react E g obj m"
| "handleEvent E g (UpdateEvent oldObj newObj) m = react E g newObj m"

text \<open>The informer goroutine, up to its stop: it panics if the handlers cannot be registered.\<close>

definition runInformer ::
  "('s, 'w, 'v) ext \<Rightarrow> gvk \<Rightarrow> 'v event list \<Rightarrow> 's manager \<times> 'w \<Rightarrow> unit outcome \<times> 's manager \<times> 'w" where
  "runInformer E g events = (\<lambda>(m, w).
     (case AddEventHandler E g w of
        (Ok _, w') \<Rightarrow> (Ok (), fold (handleEvent E g) events m, w')
      | (_, w') \<Rightarrow> (Panic, m, w')))"

text \<open>The reference \<open>react\<close> builds for an object of a GVK.\<close>

definition notified_ref :: "('s, 'w, 'v) ext \<Rightarrow> gvk \<Rightarrow> string \<Rightarrow> string \<Rightarrow> objref" where
  "notified_ref E g ns n = \<lparr>ref_Namespace = ns, ref_Name = n, ref_Kind = gvk_Kind g,
     ref_APIVersion = fst (ToAPIVersionAndKind E g)\<rparr>"

section \<open>Lemmas\<close>

lemma startWatcher_present: "watchers m g \<noteq> None \<Longrightarrow> startWatcher E g (m, w) = (Ok (), m, w)"
  by (simp add: startWatcher_def)

text \<open>A watcher is started, or nothing of the manager changes.\<close>

lemma startWatcher_cases:
  obtains (present) "watchers m g \<noteq> None" and "startWatcher E g (m, w) = (Ok (), m, w)"
  | (started) w' where "watchers m g = None" and "startWatcher E g (m, w) =
      (Ok (), m\<lparr>watchers := (watchers m)(g \<mapsto> nextInformer m),
                informers := (informers m)(nextInformer m \<mapsto> g),
                nextInformer := Suc (nextInformer m)\<rparr>, w')"
  | (failed) r w' where "watchers m g = None" and "startWatcher E g (m, w) = (r, m, w')"
      and "\<not> is_ok r"
proof (cases "watchers m g")
  case None
  obtain r w' where rw: "getDynamicInformer E g w = (r, w')" by fastforce
  show ?thesis
  proof (cases r)
    case (Ok v)
    with None rw show ?thesis by (intro started) (auto simp: startWatcher_def)
  next
    case (Err e)
    with None rw show ?thesis by (intro failed [of "Err e" w']) (auto simp: startWatcher_def)
  next
    case Panic
    with None rw show ?thesis by (intro failed [of Panic w']) (auto simp: startWatcher_def)
  qed
qed (use present startWatcher_present [of m g E w] in auto)

lemma startWatcher_Ok: "startWatcher E g (m, w) = (Ok (), m', w') \<Longrightarrow> watchers m' g \<noteq> None"
  by (cases rule: startWatcher_cases [where m = m and g = g and E = E and w = w]) auto

text \<open>
  Starting a watcher for a GVK in use keeps the invariant of the watchers; so does the way
  \<open>stopTrackingResource\<close> removes one.
\<close>

lemma startWatcher_watchers_inv:
  assumes "watchers_inv m" and "gvkResources m g \<noteq> None"
    and "startWatcher E g (m, w) = (r, m', w')"
  shows "watchers_inv m'"
proof (cases rule: startWatcher_cases [where m = m and g = g and E = E and w = w])
  case present
  with assms show ?thesis by simp
next
  case (started w'')
  with assms(3) have m': "m' = m\<lparr>watchers := (watchers m)(g \<mapsto> nextInformer m),
      informers := (informers m)(nextInformer m \<mapsto> g), nextInformer := Suc (nextInformer m)\<rparr>"
    by simp
  have fresh: "informers m (nextInformer m) \<noteq> Some g'" for g'
    using watchers_invD(2,3) [OF assms(1), of g' "nextInformer m"] by auto
  show ?thesis
  proof (rule watchers_invI)
    fix g' i
    show "watchers m' g' = Some i \<Longrightarrow> gvkResources m' g' \<noteq> None"
      using watchers_invD(1) [OF assms(1), of g' i] assms(2) by (auto simp: m' split: if_splits)
    show "watchers m' g' = Some i \<longleftrightarrow> informers m' i = Some g'"
      using watchers_invD(2,3) [OF assms(1), of g' i] fresh [of g'] started(1)
      by (auto simp: m' split: if_splits)
    show "watchers m' g' = Some i \<Longrightarrow> i < nextInformer m'"
      using watchers_invD(3) [OF assms(1), of g' i] by (auto simp: m' split: if_splits)
  qed
next
  case (failed r w'')
  with assms show ?thesis by simp
qed

lemma stopWatcher_watchers_inv:
  assumes "watchers_inv m"
  shows "watchers_inv ((stopWatcher g m)
    \<lparr>gvkResources := (gvkResources m)(g := None), watchers := (watchers m)(g := None)\<rparr>)"
proof (rule watchers_invI)
  let ?m = "(stopWatcher g m)
    \<lparr>gvkResources := (gvkResources m)(g := None), watchers := (watchers m)(g := None)\<rparr>"
  fix g' i
  show "watchers ?m g' = Some i \<Longrightarrow> gvkResources ?m g' \<noteq> None"
    using watchers_invD(1) [OF assms, of g' i] by (auto split: if_splits)
  show "watchers ?m g' = Some i \<longleftrightarrow> informers ?m i = Some g'"
    using watchers_invD(2) [OF assms, of g' i] watchers_invD(2) [OF assms, of g i]
    by (cases "watchers m g") (auto simp: stopWatcher_def split: if_splits)
  show "watchers ?m g' = Some i \<Longrightarrow> i < nextInformer ?m"
    using watchers_invD(3) [OF assms, of g' i] by (cases "watchers m g") (auto simp: stopWatcher_def split: if_splits)
qed

lemma stopWatcher_frame [simp]:
  "typeMap t (stopWatcher g m) = typeMap t m"
  "resourceHashes (stopWatcher g m) = resourceHashes m"
  "gvkResources (stopWatcher g m) = gvkResources m"
  "watchers (stopWatcher g m) = watchers m"
  "jobQueue (stopWatcher g m) = jobQueue m"
  by (cases "watchers m g"; simp add: stopWatcher_def)+

text \<open>Reacting changes the queue and nothing else.\<close>

lemma fold_checkForConfigurationDrift:
  "\<exists>q. fold (\<lambda>_. checkForConfigurationDrift E r) xs m = m\<lparr>jobQueue := q\<rparr>"
proof (induction xs arbitrary: m)
  case Nil
  show ?case by (auto intro: exI [of _ "jobQueue m"])
next
  case (Cons x xs)
  from Cons.IH [of "checkForConfigurationDrift E r m"] show ?case
    by (auto simp: checkForConfigurationDrift_def)
qed

lemma react_queue_only: "\<exists>q. react E g obj m = m\<lparr>jobQueue := q\<rparr>"
proof -
  have same: "\<exists>q. m = m\<lparr>jobQueue := q\<rparr>" by (intro exI [of _ "jobQueue m"]) simp
  have one: "\<exists>q. checkForConfigurationDrift E r m = m\<lparr>jobQueue := q\<rparr>" for r
    by (auto simp: checkForConfigurationDrift_def)
  show ?thesis
    unfolding react_def Let_def
    by (auto split: outcome.split prod.split option.split list.split
        intro: same one fold_checkForConfigurationDrift)
qed

lemma handleEvent_queue_only: "\<exists>q. handleEvent E g ev m = m\<lparr>jobQueue := q\<rparr>"
  by (cases ev) (auto simp: react_queue_only intro: exI [of _ "jobQueue m"])

context libset
begin

lemma fold_checkForConfigurationDrift_queue:
  "elems E (jobQueue (fold (\<lambda>_. checkForConfigurationDrift E r) xs m)) =
     (if xs = [] then elems E (jobQueue m) else insert r (elems E (jobQueue m)))"
  by (induction xs arbitrary: m) (auto simp: checkForConfigurationDrift_def)

text \<open>What a notification queues: the object, when it is tracked as a resource or by a chart.\<close>

lemma react_queue:
  fixes g :: gvk
  assumes "consumers_inv E m" and "MetaNamespaceKeyFunc E obj = Ok k"
    and "SplitMetaNamespaceKey E k = (ns, n)"
  defines "r \<equiv> notified_ref E g ns n"
  shows "elems E (jobQueue (react E g obj m)) =
    (if resources m r \<noteq> None \<or> helmResources m r \<noteq> None
     then insert r (elems E (jobQueue m)) else elems E (jobQueue m))"
proof -
  have ne: "set_Items E s \<noteq> []" if "typeMap t m r = Some s" for t s
    using assms(1) that by (auto simp: consumers_inv_def)
  have res: "set_Items E s \<noteq> []" if "resources m r = Some s" for s
    using ne [of Resource s] that by (simp add: typeMap_def)
  have helm: "set_Items E s \<noteq> []" if "helmResources m r = Some s" for s
    using ne [of HelmResource s] that by (simp add: typeMap_def)
  show ?thesis
  proof (cases "resources m r")
    case None
    then show ?thesis using helm assms(2,3)
      by (auto simp: react_def r_def notified_ref_def fold_checkForConfigurationDrift_queue
          simp del: Items_Nil split: option.split)
  next
    case (Some s)
    then obtain x xs where "set_Items E s = x # xs" using res by (cases "set_Items E s") auto
    with Some show ?thesis using assms(2,3)
      by (simp add: react_def r_def notified_ref_def checkForConfigurationDrift_def)
  qed
qed

text \<open>Whatever the event: what it queues is in one of the two maps that \<open>react\<close> looks at.\<close>

lemma react_queues:
  "r \<in> elems E (jobQueue (react E g obj m)) \<Longrightarrow> r \<in> elems E (jobQueue m) \<or> resources m r \<noteq> None \<or> helmResources m r \<noteq> None"
  by (auto simp: react_def Let_def checkForConfigurationDrift_def fold_checkForConfigurationDrift_queue
      split: outcome.splits prod.splits option.splits list.splits if_splits)

lemma handleEvent_queues:
  "r \<in> elems E (jobQueue (handleEvent E g ev m)) \<Longrightarrow> r \<in> elems E (jobQueue m) \<or> resources m r \<noteq> None \<or> helmResources m r \<noteq> None"
  by (cases ev) (auto dest: react_queues)

end

lemmas [run] = startWatcher_def getDynamicInformer_def NewDiscoveryClientForConfigOrDie_def
  stopWatcher_def checkForConfigurationDrift_def react_def

text \<open>
  A resource as ResourceSummaries list it and the object an informer reports meet in one reference:
  the key of the tracking maps.
\<close>

lemma notified_ref_getObjectRef:
  "notified_ref E \<lparr>gvk_Group = res_Group r, gvk_Version = res_Version r, gvk_Kind = res_Kind r\<rparr>
     (res_Namespace r) (res_Name r) = getObjectRef E r"
  by (simp add: notified_ref_def getObjectRef_def Let_def)

lemma ref_of_gvk:
  assumes "apimachinery E" and "wf_gvk g"
  shows "ref_GroupVersionKind E (notified_ref E g ns n) = g"
  using apimachinery.GVK_roundtrip [OF assms] by (simp add: notified_ref_def)

definition ex_kustomize_manager :: "objref list manager" where
  "ex_kustomize_manager = (newManager ref_ext [] [] [] 5 True)\<lparr>
     kustomizeResources := [ex_deployment_ref \<mapsto> [ex_summary_ref]]\<rparr>"

definition ex_helm_manager :: "objref list manager" where
  "ex_helm_manager = (newManager ref_ext [] [] [] 5 True)\<lparr>
     helmResources := [ex_deployment_ref \<mapsto> [ex_summary_ref]]\<rparr>"

lemma ex_helm_consumers: "consumers_inv ref_ext ex_helm_manager"
  by (auto simp: consumers_inv_def ex_helm_manager_def typeMap_def newManager_def elems_def
      ref_ext_sel split: rtype.splits if_splits)

lemma ex_deployment_notified:
  "notified_ref ref_ext (u_GVK ex_deployment_obj) (u_Namespace ex_deployment_obj) (u_Name ex_deployment_obj)
     = ex_deployment_ref"
  by (simp add: notified_ref_def run)

lemma ex_deployment_wf: "wf_name (u_Namespace ex_deployment_obj)" "wf_name (u_Name ex_deployment_obj)"
  by (simp_all add: wf_name_def ex_deployment_obj_def)

section \<open>Properties\<close>

text \<open>
  (C16) A change or the deletion of an object that some ResourceSummary tracks, as a plain resource or
  through a Helm chart, puts exactly that object's reference into the queue of resources to evaluate;
  notifications about objects tracked in neither way leave the queue as it is; nothing else of the
  manager changes. The addition of an object is ignored.
\<close>

theorem notification_queues_tracked:
  assumes "libset E" and api: "apimachinery E" and "consumers_inv E m"
    and wf: "wf_name (u_Namespace u)" "wf_name (u_Name u)"
    and r: "r = notified_ref E g (u_Namespace u) (u_Name u)"
    and ev: "ev = DeleteEvent (Object u) \<or> ev = UpdateEvent old (Object u)"
  shows "elems E (jobQueue (handleEvent E g ev m)) =
      (if resources m r \<noteq> None \<or> helmResources m r \<noteq> None
       then insert r (elems E (jobQueue m)) else elems E (jobQueue m)) \<and>
    (\<exists>q. handleEvent E g ev m = m\<lparr>jobQueue := q\<rparr>) \<and> handleEvent E g (AddEvent obj) m = m"
proof -
  obtain k where k: "MetaNamespaceKeyFunc E (Object u) = Ok k"
    using apimachinery.key_ok [OF api] by blast
  have "SplitMetaNamespaceKey E k = (u_Namespace u, u_Name u)"
    by (rule apimachinery.key_roundtrip [OF api wf k])
  then have "elems E (jobQueue (react E g (Object u) m)) =
      (if resources m r \<noteq> None \<or> helmResources m r \<noteq> None
       then insert r (elems E (jobQueue m)) else elems E (jobQueue m))"
    using libset.react_queue [OF assms(1,3) k, of _ _ g] r by simp
  then show ?thesis using ev handleEvent_queue_only [of E g ev m] by auto
qed

theorem notification_queues_tracked_witness:
  "elems ref_ext (jobQueue (handleEvent ref_ext ex_deployment_gvk
     (DeleteEvent (Object ex_deployment_obj)) ex_helm_manager)) = {ex_deployment_ref}"
proof -
  have g: "u_GVK ex_deployment_obj = ex_deployment_gvk" by (simp add: ex_deployment_obj_def)
  show ?thesis
    using notification_queues_tracked [OF ref_set.libset_axioms ref_api.apimachinery_axioms ex_helm_consumers
        ex_deployment_wf ex_deployment_notified [symmetric, unfolded g], of "DeleteEvent (Object ex_deployment_obj)"]
    by (simp add: ex_helm_manager_def newManager_def ref_ext_sel elems_def)
qed



end
