(* ===== verification/Sha256.thy ===== *)
theory Sha256
  imports Go_Prelude
begin

text \<open>
  SHA-256 as \<open>crypto/sha256\<close> computes it (\<open>sha256.New\<close>, \<open>Write\<close>, \<open>Sum(nil)\<close>), on 32-bit words: the
  padding of the message to blocks of 64 bytes, the message schedule, the 64 rounds and the
  big-endian digest. The manager stores and compares these digests.
\<close>

unbundle bit_operations_syntax

section \<open>Definitions\<close>

definition sha_ch :: "u32 \<Rightarrow> u32 \<Rightarrow> u32 \<Rightarrow> u32" where
  "sha_ch x y z = (x AND y) XOR (NOT x AND z)"

definition sha_maj :: "u32 \<Rightarrow> u32 \<Rightarrow> u32 \<Rightarrow> u32" where
  "sha_maj x y z = (x AND y) XOR (x AND z) XOR (y AND z)"

definition big_sigma0 :: "u32 \<Rightarrow> u32" where
  "big_sigma0 x = word_rotr 2 x XOR word_rotr 13 x XOR word_rotr 22 x"

definition big_sigma1 :: "u32 \<Rightarrow> u32" where
  "big_sigma1 x = word_rotr 6 x XOR word_rotr 11 x XOR word_rotr 25 x"

definition small_sigma0 :: "u32 \<Rightarrow> u32" where
  "small_sigma0 x = word_rotr 7 x XOR word_rotr 18 x XOR drop_bit 3 x"

definition small_sigma1 :: "u32 \<Rightarrow> u32" where
  "small_sigma1 x = word_rotr 17 x XOR word_rotr 19 x XOR drop_bit 10 x"

text \<open>
  The constants: the first 32 bits of the fractional parts of the square roots (initial state) and of
  the cube roots (round constants) of the first primes.
\<close>

definition sha_init :: "u32 list" where
  "sha_init = [
     1779033703, 3144134277, 1013904242, 2773480762, 1359893119, 2600822924, 528734635, 1541459225]"

definition sha_K :: "u32 list" where
  "sha_K = [
     1116352408, 1899447441, 3049323471, 3921009573, 961987163, 1508970993, 2453635748, 2870763221,
     3624381080, 310598401, 607225278, 1426881987, 1925078388, 2162078206, 2614888103, 3248222580,
     3835390401, 4022224774, 264347078, 604807628, 770255983, 1249150122, 1555081692, 1996064986,
     2554220882, 2821834349, 2952996808, 3210313671, 3336571891, 3584528711, 113926993, 338241895,
     666307205, 773529912, 1294757372, 1396182291, 1695183700, 1986661051, 2177026350, 2456956037,
     2730485921, 2820302411, 3259730800, 3345764771, 3516065817, 3600352804, 4094571909, 275423344,
     430227734, 506948616, 659060556, 883997877, 958139571, 1322822218, 1537002063, 1747873779,
     1955562222, 2024104815, 2227730452, 2361852424, 2428436474, 2756734187, 3204031479, 3329325298]"

text \<open>Big-endian encodings: the message length in bits (64 bits), a word as four bytes and back.\<close>

definition be64 :: "u64 \<Rightarrow> u8 list" where
  "be64 n = map (\<lambda>i. ucast (drop_bit (8 * i) n)) [7, 6, 5, 4, 3, 2, 1, 0]"

definition be32 :: "u32 \<Rightarrow> u8 list" where
  "be32 n = map (\<lambda>i. ucast (drop_bit (8 * i) n)) [3, 2, 1, 0]"

fun words_be :: "u8 list \<Rightarrow> u32 list" where
  "words_be (a # b # c # d # rest) =
     (push_bit 24 (ucast a) OR push_bit 16 (ucast b) OR push_bit 8 (ucast c) OR ucast d) # words_be rest"
| "words_be _ = []"

definition sha_pad_len :: "nat \<Rightarrow> nat" where
  "sha_pad_len n = (119 - n mod 64) mod 64"

definition sha_pad :: "u8 list \<Rightarrow> u8 list" where
  "sha_pad msg = msg @ 0x80 # replicate (sha_pad_len (length msg)) 0 @ be64 (word_of_nat (8 * length msg))"

text \<open>The message schedule, newest word first: each new word comes from four earlier ones.\<close>

fun sha_extend :: "nat \<Rightarrow> u32 list \<Rightarrow> u32 list" where
  "sha_extend 0 ws = ws"
| "sha_extend (Suc n) ws =
     sha_extend n ((small_sigma1 (ws ! 1) + ws ! 6 + small_sigma0 (ws ! 14) + ws ! 15) # ws)"

definition sha_schedule :: "u32 list \<Rightarrow> u32 list" where
  "sha_schedule block = rev (sha_extend 48 (rev block))"

type_synonym sha_vars = "u32 \<times> u32 \<times> u32 \<times> u32 \<times> u32 \<times> u32 \<times> u32 \<times> u32"

fun sha_round :: "u32 \<times> u32 \<Rightarrow> sha_vars \<Rightarrow> sha_vars" where
  "sha_round (k, w) (a, b, c, d, e, f, g, h) =
     (let t1 = h + big_sigma1 e + sha_ch e f g + k + w;
          t2 = big_sigma0 a + sha_maj a b c
      in (t1 + t2, a, b, c, d + t1, e, f, g))"

definition sha_vars_of :: "u32 list \<Rightarrow> sha_vars" where
  "sha_vars_of hs = (hs ! 0, hs ! 1, hs ! 2, hs ! 3, hs ! 4, hs ! 5, hs ! 6, hs ! 7)"

definition sha_compress :: "u32 list \<Rightarrow> u32 list \<Rightarrow> u32 list" where
  "sha_compress block hs =
     (case fold sha_round (zip sha_K (sha_schedule block)) (sha_vars_of hs) of
        (a, b, c, d, e, f, g, h) \<Rightarrow> map2 (+) hs [a, b, c, d, e, f, g, h])"

fun sha_blocks :: "nat \<Rightarrow> u32 list \<Rightarrow> u32 list \<Rightarrow> u32 list" where
  "sha_blocks 0 ws hs = hs"
| "sha_blocks (Suc n) ws hs = sha_blocks n (drop 16 ws) (sha_compress (take 16 ws) hs)"

definition sha256 :: "u8 list \<Rightarrow> u8 list" where
  "sha256 msg =
     (let ws = words_be (sha_pad msg)
      in concat (map be32 (sha_blocks (length ws div 16) ws sha_init)))"

section \<open>Lemmas\<close>

lemma length_be64 [simp]: "length (be64 n) = 8"
  by (simp add: be64_def)

lemma length_be32 [simp]: "length (be32 n) = 4"
  by (simp add: be32_def)

lemma length_sha_init [simp]: "length sha_init = 8"
  by (simp add: sha_init_def)

text \<open>The padded message is a whole number of 64-byte blocks, and it starts with the message.\<close>

lemma sha_pad_arith:
  assumes "r < (64 :: nat)"
  shows "(r + Suc ((119 - r) mod 64 + 8)) mod 64 = 0"
proof (cases "r \<le> 55")
  case True
  then obtain d where d: "55 = r + d" using le_Suc_ex by blast
  then have "119 - r = d + 64" by simp
  then have "(119 - r) mod 64 = d mod 64" by (simp only: mod_add_self2)
  moreover have "d mod 64 = d" using d by simp
  ultimately have "r + Suc ((119 - r) mod 64 + 8) = 64" using d by simp
  then show ?thesis by (simp only: mod_self)
next
  case False
  with assms have "(119 - r) mod 64 = 119 - r" by simp
  with assms have "r + Suc ((119 - r) mod 64 + 8) = 64 + 64" by simp
  then show ?thesis by (simp only: mod_add_self1 mod_self)
qed

lemma sha_pad_blocks: "length (sha_pad msg) mod 64 = 0"
proof -
  let ?n = "length msg"
  have "(?n + Suc ((119 - ?n mod 64) mod 64 + 8)) mod 64
      = (?n mod 64 + Suc ((119 - ?n mod 64) mod 64 + 8)) mod 64"
    by (simp only: mod_add_left_eq)
  also have "\<dots> = 0" by (rule sha_pad_arith) simp
  finally show ?thesis by (simp add: sha_pad_def sha_pad_len_def)
qed

lemma sha_pad_prefix: "take (length msg) (sha_pad msg) = msg"
  by (simp add: sha_pad_def)

lemma length_words_be: "length (words_be bs) = length bs div 4"
  by (induction bs rule: words_be.induct) simp_all

lemma length_sha_extend: "length (sha_extend n ws) = n + length ws"
  by (induction n ws rule: sha_extend.induct) simp_all

lemma length_sha_schedule: "length block = 16 \<Longrightarrow> length (sha_schedule block) = 64"
  by (simp add: sha_schedule_def length_sha_extend)

lemma length_sha_compress: "length hs = 8 \<Longrightarrow> length (sha_compress block hs) = 8"
  by (simp add: sha_compress_def split: prod.split)

lemma length_sha_blocks: "length hs = 8 \<Longrightarrow> length (sha_blocks n ws hs) = 8"
  by (induction n ws hs rule: sha_blocks.induct) (simp_all add: length_sha_compress)

lemma length_concat_be32: "length (concat (map be32 ws)) = 4 * length ws"
  by (induction ws) simp_all

lemma length_sha256 [simp]: "length (sha256 msg) = 32"
  by (simp add: sha256_def Let_def length_concat_be32 length_sha_blocks length_sha_init)

text \<open>The digest is never the empty slice, and its hexadecimal rendering has 64 digits.\<close>

lemma sha256_not_Nil [simp]: "sha256 msg \<noteq> []"
  using length_sha256 [of msg] by (metis list.size(3) numeral_neq_zero length_sha256)

text \<open>The test vector of FIPS 180-4, evaluated in the kernel: the definitions are SHA-256.\<close>

lemma sha256_abc:
  "sha256 (bytes_of_string ''abc'') =
     [0xba, 0x78, 0x16, 0xbf, 0x8f, 0x01, 0xcf, 0xea, 0x41, 0x41, 0x40, 0xde, 0x5d, 0xae, 0x22, 0x23,
      0xb0, 0x03, 0x61, 0xa3, 0x96, 0x17, 0x7a, 0x9c, 0xb4, 0x10, 0xff, 0x61, 0xf2, 0x00, 0x15, 0xad]"
  by code_simp

lemma length_sprintf_sha256: "length (sprintf_x (Some (sha256 msg))) = 64"
  by simp

end
