(* ===== verification/Hashing.thy ===== *)
theory Hashing
  imports Sha256 Reference_Cluster "HOL-Library.Multiset"
begin

text \<open>
  The configuration hash of a resource (\<open>getSortedKeys\<close> and \<open>unstructuredHash\<close> of
  \<open>pkg/drift-detection/manager.go\<close>): what of an object counts as its configuration.
\<close>

section \<open>Definitions\<close>

definition getSortedKeys :: "(string \<times> 'v) list \<Rightarrow> string list" where
  "getSortedKeys inputMap = sort (map fst inputMap)"

text \<open>The loop over the sorted keys: every value but those under metadata and status.\<close>

fun render_content :: "('s, 'w, 'v) ext \<Rightarrow> (string \<times> 'v) list \<Rightarrow> string list \<Rightarrow> string" where
  "render_content E content [] = []"
| "render_content E content (k # ks) =
     (if k \<noteq> ''metadata'' \<and> k \<noteq> ''status''
      then (case map_of content k of None \<Rightarrow> [] | Some v \<Rightarrow> AsCode_string E (ForHash E v))
      else []) @ render_content E content ks"

definition render_opt :: "('s, 'w, 'v) ext \<Rightarrow> (string \<times> string) list option \<Rightarrow> string" where
  "render_opt E l = (case l of None \<Rightarrow> [] | Some kvs \<Rightarrow> AsCode_map E kvs)"

text \<open>
  The content the hash looks at: with patches, that of the first object the patcher returns
  (\<open>u_slice[0]\<close> panics on an empty slice).
\<close>

definition patched_content ::
  "('s, 'w, 'v) ext \<Rightarrow> 'v unstructured \<Rightarrow> patch list \<Rightarrow> (string \<times> 'v) list outcome" where
  "patched_content E u patches =
     (if patches \<noteq> [] then
        (case RunUnstructured E patches [u] of
           Ok (p # _) \<Rightarrow> Ok (u_Content p)
         | Ok [] \<Rightarrow> Panic
         | Err e \<Rightarrow> Err e
         | Panic \<Rightarrow> Panic)
      else Ok (u_Content u))"

definition config_of :: "('s, 'w, 'v) ext \<Rightarrow> 'v unstructured \<Rightarrow> (string \<times> 'v) list \<Rightarrow> string" where
  "config_of E u content =
     render_opt E (u_Labels u) @
     (if gvk_Kind (u_GVK u) \<noteq> ''ConfigMap'' then render_opt E (u_Annotations u) else []) @
     render_content E content (getSortedKeys content)"

definition unstructuredHash ::
  "('s, 'w, 'v) ext \<Rightarrow> 'v unstructured \<Rightarrow> patch list \<Rightarrow> bytes outcome" where
  "unstructuredHash E u patches =
     (case patched_content E u patches of
        Ok content \<Rightarrow> Ok (Some (sha256 (bytes_of_string (config_of E u content))))
      | Err e \<Rightarrow> Err e
      | Panic \<Rightarrow> Panic)"

text \<open>
  The part of an object that is meant to count: its labels, its annotations unless it is a
  ConfigMap, and every top-level field but metadata and status, by name.
\<close>

definition config_fields :: "(string \<times> 'v) list \<Rightarrow> string \<rightharpoonup> 'v" where
  "config_fields content = (map_of content)(''metadata'' := None, ''status'' := None)"

text \<open>Two Go maps with the same entries, iterated in whatever order: both nil, or neither.\<close>

definition same_map :: "(string \<times> string) list option \<Rightarrow> (string \<times> string) list option \<Rightarrow> bool" where
  "same_map l l' \<longleftrightarrow> (case (l, l') of
     (None, None) \<Rightarrow> True
   | (Some kvs, Some kvs') \<Rightarrow> distinct (map fst kvs) \<and> distinct (map fst kvs') \<and> map_of kvs = map_of kvs'
   | _ \<Rightarrow> False)"

section \<open>Lemmas\<close>

lemma getSortedKeys_sorted: "sorted (getSortedKeys m)"
  by (simp add: getSortedKeys_def)

lemma getSortedKeys_mset: "mset (getSortedKeys m) = mset (map fst m)"
  by (simp add: getSortedKeys_def)

text \<open>Skipping metadata and status can be done before or after sorting.\<close>

lemma render_content_filter:
  "render_content E content ks =
     concat (map (\<lambda>k. case map_of content k of None \<Rightarrow> [] | Some v \<Rightarrow> AsCode_string E (ForHash E v))
       (filter (\<lambda>k. k \<noteq> ''metadata'' \<and> k \<noteq> ''status'') ks))"
  by (induction ks) auto

lemma config_keys_eq:
  assumes "distinct (map fst c)" and "distinct (map fst c')"
    and "config_fields c = config_fields c'"
  shows "filter (\<lambda>k. k \<noteq> ''metadata'' \<and> k \<noteq> ''status'') (getSortedKeys c)
       = filter (\<lambda>k. k \<noteq> ''metadata'' \<and> k \<noteq> ''status'') (getSortedKeys c')"
proof -
  let ?P = "\<lambda>k. k \<noteq> ''metadata'' \<and> k \<noteq> ''status''"
  have dom_c: "dom (config_fields d) = {k \<in> set (map fst d). ?P k}" for d :: "(string \<times> 'v) list"
    by (auto simp: config_fields_def dom_map_of_conv_image_fst)
  have "set (filter ?P (getSortedKeys c)) = set (filter ?P (getSortedKeys c'))"
    using dom_c [of c] dom_c [of c'] assms(3) by (auto simp: getSortedKeys_def)
  moreover have "sorted (filter ?P (getSortedKeys d)) \<and> (distinct (map fst d) \<longrightarrow> distinct (filter ?P (getSortedKeys d)))"
    for d :: "(string \<times> 'v) list"
    by (simp add: getSortedKeys_def sorted_wrt_filter)
  ultimately show ?thesis using assms(1,2) by (intro sorted_distinct_set_unique) auto
qed

lemma render_content_config:
  assumes "distinct (map fst c)" and "distinct (map fst c')"
    and "config_fields c = config_fields c'"
  shows "render_content E c (getSortedKeys c) = render_content E c' (getSortedKeys c')"
proof -
  have "map_of c k = map_of c' k" if "k \<noteq> ''metadata'' \<and> k \<noteq> ''status''" for k
    using fun_cong [OF assms(3), of k] that by (simp add: config_fields_def)
  then show ?thesis
    unfolding render_content_filter config_keys_eq [OF assms]
    by (intro arg_cong [where f = concat] map_cong) auto
qed

lemma unstructuredHash_no_patches:
  "unstructuredHash E u [] = Ok (Some (sha256 (bytes_of_string (config_of E u (u_Content u)))))"
  by (simp add: unstructuredHash_def patched_content_def)

lemma unstructuredHash_length:
  "unstructuredHash E u patches = Ok h \<Longrightarrow> \<exists>d. h = Some d \<and> length d = 32"
  by (auto simp: unstructuredHash_def split: outcome.splits)

lemmas [run] = unstructuredHash_def patched_content_def

context renderer
begin

lemma render_opt_same: "same_map l l' \<Longrightarrow> render_opt E l = render_opt E l'"
  by (cases l; cases l') (auto simp: same_map_def render_opt_def intro: AsCode_map_order)

end

text \<open>The example's Deployment after a status update, with its fields and its labels in another order.\<close>

definition ex_labelled_obj :: "ref_value unstructured" where
  "ex_labelled_obj = ex_deployment_obj\<lparr>u_Labels := Some [(''app'', ''web''), (''tier'', ''front'')]\<rparr>"

definition ex_labelled_obj2 :: "ref_value unstructured" where
  "ex_labelled_obj2 = ex_deployment_obj\<lparr>u_Labels := Some [(''tier'', ''front''), (''app'', ''web'')],
     u_Content := [(''status'', RText ''ready: 0''), (''spec'', RText ''replicas: 3'')]\<rparr>"

section \<open>Properties\<close>

text \<open>
  (C17) The hash of a resource depends on its configuration only: its labels, its annotations unless
  it is a ConfigMap, and every top-level field of the (patched) content but metadata and status.
  Two objects that agree on these have the same hash, whatever their status, and whatever order the
  Go maps of the labels, of the annotations and of the content are iterated in; for the first two the
  renderer is relied on to write maps in the order of their keys.
\<close>

theorem hash_depends_on_configuration:
  assumes "renderer E" and "u_GVK u = u_GVK u'" and "same_map (u_Labels u) (u_Labels u')"
    and "gvk_Kind (u_GVK u) \<noteq> ''ConfigMap'' \<Longrightarrow> same_map (u_Annotations u) (u_Annotations u')"
    and "patched_content E u patches = Ok c" and "patched_content E u' patches = Ok c'"
    and "distinct (map fst c)" and "distinct (map fst c')"
    and "config_fields c = config_fields c'"
  shows "unstructuredHash E u patches = unstructuredHash E u' patches"
  using assms(2,5,6) render_content_config [OF assms(7-9), of E]
    renderer.render_opt_same [OF assms(1,3)] renderer.render_opt_same [OF assms(1) assms(4)]
  by (simp add: unstructuredHash_def config_of_def)

theorem hash_depends_on_configuration_witness:
  "u_Labels ex_labelled_obj \<noteq> u_Labels ex_labelled_obj2 \<and> u_Content ex_labelled_obj \<noteq> u_Content ex_labelled_obj2 \<and>
   unstructuredHash ref_ext ex_labelled_obj [] = unstructuredHash ref_ext ex_labelled_obj2 []"
proof (intro conjI)
  show "u_Labels ex_labelled_obj \<noteq> u_Labels ex_labelled_obj2" "u_Content ex_labelled_obj \<noteq> u_Content ex_labelled_obj2"
    by (simp_all add: ex_labelled_obj_def ex_labelled_obj2_def ex_deployment_obj_def)
  show "unstructuredHash ref_ext ex_labelled_obj [] = unstructuredHash ref_ext ex_labelled_obj2 []"
    by (rule hash_depends_on_configuration [OF ref_render.renderer_axioms,
          where c = "u_Content ex_labelled_obj" and c' = "u_Content ex_labelled_obj2"])
      (auto simp: ex_labelled_obj_def ex_labelled_obj2_def ex_deployment_obj_def patched_content_def config_fields_def
        same_map_def fun_eq_iff)
qed

text \<open>
  (C25) Every branch of the hash. It fails with an error exactly when there are patches and the patcher
  fails with that error; it panics exactly when there are patches and the patcher panics or returns no
  object; otherwise it is a non-nil slice of 32 bytes: with patches, the hash without patches of the
  object whose content is that of the first object the patcher returns.
\<close>

theorem hash_result:
  "(\<forall>e. unstructuredHash E u patches = Err e \<longleftrightarrow> patches \<noteq> [] \<and> RunUnstructured E patches [u] = Err e) \<and>
   (unstructuredHash E u patches = Panic \<longleftrightarrow> patches \<noteq> [] \<and> RunUnstructured E patches [u] \<in> {Panic, Ok []}) \<and>
   (case unstructuredHash E u patches of
      Ok h \<Rightarrow> (\<exists>d. h = Some d \<and> length d = 32) \<and>
        (patches = [] \<or> (\<exists>p ps. RunUnstructured E patches [u] = Ok (p # ps) \<and>
           unstructuredHash E (u\<lparr>u_Content := u_Content p\<rparr>) [] = Ok h))
    | _ \<Rightarrow> True)"
proof (cases "patches = []")
  case True
  then show ?thesis by (simp add: unstructuredHash_def patched_content_def)
next
  case False
  show ?thesis
  proof (cases "RunUnstructured E patches [u]")
    case (Ok ps)
    with False show ?thesis by (cases ps) (simp_all add: unstructuredHash_def patched_content_def config_of_def)
  qed (use False in \<open>simp_all add: unstructuredHash_def patched_content_def\<close>)
qed

end
