(* ===== verification/Tracking.thy ===== *)
theory Tracking
  imports Watcher Hashing Reference_Cluster
begin

text \<open>
  Registering and unregistering resources (\<open>pkg/drift-detection/manager.go\<close>). Each of the two
  public operations runs under the manager's write lock, so it is one step of the model.
\<close>

section \<open>Definitions\<close>

definition trackResource ::
  "('s, 'w, 'v) ext \<Rightarrow> objref \<Rightarrow> rtype \<Rightarrow> objref \<Rightarrow> 's manager \<Rightarrow> 's manager" where
  "trackResource E r t requestor m =
     (let consumers = (case typeMap t m r of None \<Rightarrow> set_new E | Some s \<Rightarrow> s)
      in set_typeMap t ((typeMap t m)(r \<mapsto> set_Insert E requestor consumers)) m)"

definition stillTrackingResource :: "objref \<Rightarrow> 's manager \<Rightarrow> bool" where
  "stillTrackingResource r m =
     (if helmResources m r \<noteq> None then True
      else if kustomizeResources m r \<noteq> None then True
      else resources m r \<noteq> None)"

definition stopTrackingResource :: "('s, 'w, 'v) ext \<Rightarrow> objref \<Rightarrow> 's manager \<Rightarrow> 's manager" where
  "stopTrackingResource E r m =
     (let m1 = m\<lparr>resourceHashes := (resourceHashes m)(r := None)\<rparr>;
          g = ref_GroupVersionKind E r
      in case gvkResources m1 g of
           None \<Rightarrow> m1
         | Some s \<Rightarrow>
             (let s' = set_Erase E r s;
                  m2 = m1\<lparr>gvkResources := (gvkResources m1)(g \<mapsto> s')\<rparr>
              in if set_Len E s' = 0 then
                   (let m3 = stopWatcher g (m2\<lparr>gvkResources := (gvkResources m2)(g := None)\<rparr>)
                    in m3\<lparr>watchers := (watchers m3)(g := None)\<rparr>)
                 else m2))"

definition updateGVKMapAndStartWatcher ::
  "('s, 'w, 'v) ext \<Rightarrow> objref \<Rightarrow> 's manager \<times> 'w \<Rightarrow> unit outcome \<times> 's manager \<times> 'w" where
  "updateGVKMapAndStartWatcher E r = (\<lambda>(m, w).
     (let g = ref_GroupVersionKind E r;
          insertRef = (\<lambda>m. m\<lparr>gvkResources := (gvkResources m)(g \<mapsto>
             set_Insert E r (case gvkResources m g of None \<Rightarrow> set_new E | Some s \<Rightarrow> s))\<rparr>)
      in if gvkResources m g = None then
           and_then (startWatcher E g (m\<lparr>gvkResources := (gvkResources m)(g \<mapsto> set_new E)\<rparr>, w))
             (\<lambda>_ (m1, w1). (Ok (), insertRef m1, w1))
         else (Ok (), insertRef m, w)))"

definition getUnstructured :: "('s, 'w, 'v) ext \<Rightarrow> objref \<Rightarrow> 'w \<Rightarrow> 'v unstructured outcome \<times> 'w" where
  "getUnstructured E r w =
     (let g = ref_GroupVersionKind E r
      in and_then (GetDynamicResourceInterface E g (ref_Namespace r) w)
           (\<lambda>_ w1. dr_Get E g (ref_Namespace r) (ref_Name r) w1))"

text \<open>
  The ResourceSummary is passed by reference and is given its type information on the way, so it is
  part of the state.
\<close>

definition RegisterResource ::
  "('s, 'w, 'v) ext \<Rightarrow> objref \<Rightarrow> rtype \<Rightarrow> resource_summary \<times> 's manager \<times> 'w
     \<Rightarrow> bytes outcome \<times> resource_summary \<times> 's manager \<times> 'w" where
  "RegisterResource E r t = (\<lambda>(rs, m, w).
     and_then_pure (GetObjectReference E rs) (rs, m, w) (\<lambda>(requestor, rs1).
       (let m1 = trackResource E r t requestor m
        in case resourceHashes m1 r of
             Some v \<Rightarrow> (Ok v, rs1, m1, w)
           | None \<Rightarrow>
               (case getUnstructured E r w of
                  (Err e, w1) \<Rightarrow> (Err e, rs1, m1, w1)
                | (Panic, w1) \<Rightarrow> (Panic, rs1, m1, w1)
                | (Ok u, w1) \<Rightarrow>
                    and_then_pure (unstructuredHash E u (spec_Patches (rs_Spec rs1))) (rs1, m1, w1)
                      (\<lambda>currentHash.
                        (case updateGVKMapAndStartWatcher E r
                            (m1\<lparr>resourceHashes := (resourceHashes m1)(r \<mapsto> currentHash)\<rparr>, w1) of
                           (Ok _, m2, w2) \<Rightarrow> (Ok currentHash, rs1, m2, w2)
                         | (Err e, m2, w2) \<Rightarrow> (Err e, rs1, m2, w2)
                         | (Panic, m2, w2) \<Rightarrow> (Panic, rs1, m2, w2)))))))"

definition UnRegisterResource ::
  "('s, 'w, 'v) ext \<Rightarrow> objref \<Rightarrow> rtype \<Rightarrow> resource_summary \<times> 's manager
     \<Rightarrow> unit outcome \<times> resource_summary \<times> 's manager" where
  "UnRegisterResource E r t = (\<lambda>(rs, m).
     and_then_pure (GetObjectReference E rs) (rs, m) (\<lambda>(requestor, rs1).
       (case typeMap t m r of
          None \<Rightarrow> (Ok (), rs1, m)
        | Some s \<Rightarrow>
            (let s' = set_Erase E requestor s;
                 m1 = set_typeMap t ((typeMap t m)(r \<mapsto> s')) m;
                 m2 = (if set_Len E s' = 0 then set_typeMap t ((typeMap t m1)(r := None)) m1 else m1);
                 m3 = (if \<not> stillTrackingResource r m2 then stopTrackingResource E r m2 else m2)
             in (Ok (), rs1, m3)))))"

section \<open>Lemmas on the parts\<close>

lemma stillTrackingResource_iff [simp]: "stillTrackingResource r m \<longleftrightarrow> is_tracked m r"
proof -
  have "is_tracked m r \<longleftrightarrow>
      typeMap HelmResource m r \<noteq> None \<or> typeMap KustomizeResource m r \<noteq> None \<or> typeMap Resource m r \<noteq> None"
    unfolding is_tracked_def by (metis (full_types) rtype.exhaust)
  then show ?thesis by (simp add: stillTrackingResource_def typeMap_def)
qed

lemma trackResource_frame [simp]:
  "resourceHashes (trackResource E r t q m) = resourceHashes m"
  "gvkResources (trackResource E r t q m) = gvkResources m"
  "watchers (trackResource E r t q m) = watchers m"
  "informers (trackResource E r t q m) = informers m"
  "nextInformer (trackResource E r t q m) = nextInformer m"
  "jobQueue (trackResource E r t q m) = jobQueue m"
  by (simp_all add: trackResource_def Let_def)

lemma trackResource_is_tracked [simp]:
  "is_tracked (trackResource E r t q m) r' \<longleftrightarrow> r' = r \<or> is_tracked m r'"
  by (auto simp: is_tracked_def trackResource_def Let_def split: if_splits)

lemma stopTrackingResource_typeMap [simp]:
  "typeMap t (stopTrackingResource E r m) = typeMap t m"
  by (simp add: stopTrackingResource_def Let_def split: option.split)

lemma stopTrackingResource_hashes [simp]:
  "resourceHashes (stopTrackingResource E r m) = (resourceHashes m)(r := None)"
  by (simp add: stopTrackingResource_def Let_def split: option.split)

lemma stopTrackingResource_jobQueue [simp]:
  "jobQueue (stopTrackingResource E r m) = jobQueue m"
  by (simp add: stopTrackingResource_def Let_def split: option.split)

lemma startWatcher_frame:
  assumes "startWatcher E g (m, w) = (res, m', w')"
  shows "typeMap t m' = typeMap t m" and "resourceHashes m' = resourceHashes m"
    and "gvkResources m' = gvkResources m" and "jobQueue m' = jobQueue m"
proof -
  have "typeMap t m' = typeMap t m \<and> resourceHashes m' = resourceHashes m \<and>
      gvkResources m' = gvkResources m \<and> jobQueue m' = jobQueue m"
    by (cases rule: startWatcher_cases [where m = m and g = g and E = E and w = w]) (use assms in auto)
  then show "typeMap t m' = typeMap t m" and "resourceHashes m' = resourceHashes m"
    and "gvkResources m' = gvkResources m" and "jobQueue m' = jobQueue m" by simp_all
qed

text \<open>
  Adding a resource to its GVK's set: the GVK is in use already, or its watcher starts, or that
  fails and an empty set stays behind.
\<close>

lemma updateGVK_cases:
  fixes E :: "('s, 'w, 'v) ext" and m :: "'s manager"
  defines "g \<equiv> \<lambda>r. ref_GroupVersionKind E r"
  obtains (present) s where "gvkResources m (g r) = Some s"
      and "updateGVKMapAndStartWatcher E r (m, w) =
        (Ok (), m\<lparr>gvkResources := (gvkResources m)(g r \<mapsto> set_Insert E r s)\<rparr>, w)"
  | (started) m1 w1 where "gvkResources m (g r) = None"
      and "startWatcher E (g r) (m\<lparr>gvkResources := (gvkResources m)(g r \<mapsto> set_new E)\<rparr>, w) = (Ok (), m1, w1)"
      and "updateGVKMapAndStartWatcher E r (m, w) =
        (Ok (), m1\<lparr>gvkResources := (gvkResources m)(g r \<mapsto> set_Insert E r (set_new E))\<rparr>, w1)"
  | (failed) res w1 where "gvkResources m (g r) = None" and "watchers m (g r) = None"
      and "\<not> is_ok res"
      and "updateGVKMapAndStartWatcher E r (m, w) =
        (res, m\<lparr>gvkResources := (gvkResources m)(g r \<mapsto> set_new E)\<rparr>, w1)"
proof (cases "gvkResources m (g r)")
  case (Some s)
  then show ?thesis by (intro present) (simp_all add: updateGVKMapAndStartWatcher_def g_def)
next
  case None
  let ?m = "m\<lparr>gvkResources := (gvkResources m)(g r \<mapsto> set_new E)\<rparr>"
  obtain res m1 w1 where st: "startWatcher E (g r) (?m, w) = (res, m1, w1)"
    by (cases "startWatcher E (g r) (?m, w)") auto
  then have gr: "gvkResources m1 = (gvkResources m)(g r \<mapsto> set_new E)"
    by (auto dest: startWatcher_frame(3))
  show ?thesis
  proof (cases "is_ok res")
    case True
    with None st gr show ?thesis
      by (cases res) (auto intro: started simp: updateGVKMapAndStartWatcher_def g_def Let_def)
  next
    case False
    then have "m1 = ?m \<and> watchers m (g r) = None"
      by (cases rule: startWatcher_cases [where m = ?m and g = "g r" and E = E and w = w])
        (use st in auto)
    with False None st show ?thesis
      by (cases res) (auto intro!: failed [of res w1] simp: updateGVKMapAndStartWatcher_def g_def Let_def)
  qed
qed

lemma updateGVK_frame:
  assumes "updateGVKMapAndStartWatcher E r (m, w) = (res, m', w')"
  shows "typeMap t m' = typeMap t m" and "resourceHashes m' = resourceHashes m"
    and "jobQueue m' = jobQueue m"
  using assms
  by (cases rule: updateGVK_cases [where E = E and m = m and r = r and w = w];
      force dest: startWatcher_frame)+

section \<open>The branches of the two operations\<close>

text \<open>
  Registering ends in one of five ways: the requestor has no reference (panic), the hash is known,
  the resource cannot be read, its hash cannot be computed, or the hash is stored and the GVK's
  set is updated.
\<close>

lemma RegisterResource_cases:
  obtains (no_ref) "GetObjectReference E rs = Panic"
      and "RegisterResource E r t (rs, m, w) = (Panic, rs, m, w)"
  | (known) q rs1 v where "GetObjectReference E rs = Ok (q, rs1)" and "resourceHashes m r = Some v"
      and "RegisterResource E r t (rs, m, w) = (Ok v, rs1, trackResource E r t q m, w)"
  | (not_read) q rs1 x w1 where "GetObjectReference E rs = Ok (q, rs1)" and "resourceHashes m r = None"
      and "getUnstructured E r w = (x, w1)" and "\<not> is_ok x"
      and "RegisterResource E r t (rs, m, w) =
        (case x of Ok _ \<Rightarrow> Panic | Err e \<Rightarrow> Err e | Panic \<Rightarrow> Panic,
         rs1, trackResource E r t q m, w1)"
  | (not_hashed) q rs1 u w1 x where "GetObjectReference E rs = Ok (q, rs1)" and "resourceHashes m r = None"
      and "getUnstructured E r w = (Ok u, w1)"
      and "unstructuredHash E u (spec_Patches (rs_Spec rs)) = x" and "\<not> is_ok x"
      and "RegisterResource E r t (rs, m, w) = (x, rs1, trackResource E r t q m, w1)"
  | (hashed) q rs1 u w1 h x m2 w2 where "GetObjectReference E rs = Ok (q, rs1)"
      and "resourceHashes m r = None" and "getUnstructured E r w = (Ok u, w1)"
      and "unstructuredHash E u (spec_Patches (rs_Spec rs)) = Ok h"
      and "updateGVKMapAndStartWatcher E r
        ((trackResource E r t q m)\<lparr>resourceHashes := (resourceHashes m)(r \<mapsto> h)\<rparr>, w1) = (x, m2, w2)"
      and "RegisterResource E r t (rs, m, w) =
        (case x of Ok _ \<Rightarrow> Ok h | Err e \<Rightarrow> Err e | Panic \<Rightarrow> Panic, rs1, m2, w2)"
  using GetObjectReference_not_Err [of E rs]
proof (cases "GetObjectReference E rs")
  case Panic
  then show ?thesis by (intro no_ref) (simp_all add: RegisterResource_def)
next
  case (Ok p)
  then obtain q rs1 where ref: "GetObjectReference E rs = Ok (q, rs1)" by (cases p) auto
  then have spec: "rs_Spec rs1 = rs_Spec rs" by (rule GetObjectReference_frame)
  show ?thesis
  proof (cases "resourceHashes m r")
    case (Some v)
    with ref show ?thesis by (intro known) (simp_all add: RegisterResource_def)
  next
    case None
    obtain x w1 where get: "getUnstructured E r w = (x, w1)" by fastforce
    show ?thesis
    proof (cases x)
      case (Ok u)
      obtain y where hash: "unstructuredHash E u (spec_Patches (rs_Spec rs)) = y" by simp
      show ?thesis
      proof (cases y)
        case (Ok h)
        obtain z m2 w2 where upd: "updateGVKMapAndStartWatcher E r
            ((trackResource E r t q m)\<lparr>resourceHashes := (resourceHashes m)(r \<mapsto> h)\<rparr>, w1) = (z, m2, w2)"
          using prod_cases3 by blast
        with \<open>x = Ok u\<close> \<open>y = Ok h\<close> ref None get hash spec show ?thesis
          by (intro hashed [of q rs1 u w1 h z m2 w2])
            (auto simp: RegisterResource_def split: outcome.splits)
      qed (use \<open>x = Ok u\<close> ref None get hash spec in
            \<open>auto intro!: not_hashed [of q rs1 u w1 y] simp: RegisterResource_def\<close>)
    qed (use ref None get in \<open>auto intro!: not_read [of q rs1 x w1] simp: RegisterResource_def\<close>)
  qed
qed simp

text \<open>Registering never forgets a hash, and it changes no other resource's hash.\<close>

lemma RegisterResource_hashes:
  assumes "RegisterResource E r t (rs, m, w) = (x, rs1, m', w')"
  shows "resourceHashes m' r' =
    (if r' = r \<and> resourceHashes m r = None then resourceHashes m' r else resourceHashes m r')"
proof (cases rule: RegisterResource_cases [where E = E and rs = rs and r = r and t = t and m = m and w = w])
  case (hashed q' rs2 u w1 h y m2 w2)
  then show ?thesis using assms updateGVK_frame(2) [OF hashed(5)] by simp
qed (use assms in auto)

lemma RegisterResource_Ok_hash:
  assumes "RegisterResource E r t (rs, m, w) = (Ok h, rs1, m', w')"
  shows "resourceHashes m' r = Some h"
proof (cases rule: RegisterResource_cases [where E = E and rs = rs and r = r and t = t and m = m and w = w])
  case (hashed q' rs2 u w1 h y m2 w2)
  then show ?thesis using assms updateGVK_frame(2) [OF hashed(5)] by (auto split: outcome.splits)
qed (use assms in \<open>auto split: outcome.splits\<close>)

section \<open>Effect on the tracking relation and the invariant\<close>

lemma hashes_invI:
  assumes "\<And>r h. resourceHashes m r = Some h \<Longrightarrow> is_tracked m r"
    and "\<And>g s r. gvkResources m g = Some s \<Longrightarrow> r \<in> elems E s \<Longrightarrow>
      resourceHashes m r \<noteq> None \<and> ref_GroupVersionKind E r = g"
  shows "hashes_inv E m"
  using assms by (auto simp: hashes_inv_def)

lemma hashes_invD:
  assumes "hashes_inv E m"
  shows "resourceHashes m r \<noteq> None \<Longrightarrow> is_tracked m r"
    and "gvkResources m g = Some s \<Longrightarrow> r \<in> elems E s \<Longrightarrow> resourceHashes m r \<noteq> None"
    and "gvkResources m g = Some s \<Longrightarrow> r \<in> elems E s \<Longrightarrow> ref_GroupVersionKind E r = g"
  using assms by (auto simp: hashes_inv_def)

lemma manager_invD:
  assumes "manager_inv E m"
  shows "consumers_inv E m" and "hashes_inv E m" and "watchers_inv m"
  using assms by (simp_all add: manager_inv_def)

lemma manager_invI: "consumers_inv E m \<Longrightarrow> hashes_inv E m \<Longrightarrow> watchers_inv m \<Longrightarrow> manager_inv E m"
  by (simp add: manager_inv_def)

context libset
begin

lemma tracked_trackResource [map_law]:
  "tracked E (trackResource E r t q m) = insert (r, t, q) (tracked E m)"
  by (auto simp: tracked_def trackResource_def Let_def split: if_splits option.splits)

lemma trackResource_inv [inv_intro]:
  assumes "manager_inv E m"
  shows "manager_inv E (trackResource E r t q m)"
proof (rule manager_invI)
  show "consumers_inv E (trackResource E r t q m)"
    using manager_invD(1) [OF assms]
    by (auto simp: consumers_inv_def trackResource_def Let_def split: if_splits)
  show "hashes_inv E (trackResource E r t q m)"
    using manager_invD(2) [OF assms] by (auto simp: hashes_inv_def)
  show "watchers_inv (trackResource E r t q m)"
    using manager_invD(3) [OF assms] watchers_inv_cong [of "trackResource E r t q m" m] by simp
qed

text \<open>What updating the set of a GVK does to the sets and to the watchers, also when no watcher can be started.\<close>

lemma updateGVK_sets:
  assumes "updateGVKMapAndStartWatcher E r (m, w) = (x, m', w')"
    and "gvkResources m' g = Some s" and "r' \<in> elems E s"
  shows "(r' = r \<and> g = ref_GroupVersionKind E r) \<or> (\<exists>s'. gvkResources m g = Some s' \<and> r' \<in> elems E s')"
  by (cases rule: updateGVK_cases [where E = E and m = m and r = r and w = w])
    (use assms in \<open>auto split: if_splits\<close>)

lemma updateGVK_watchers_inv:
  assumes wi: "watchers_inv m" and upd: "updateGVKMapAndStartWatcher E r (m, w) = (x, m', w')"
  shows "watchers_inv m'"
proof -
  have gi: "watchers_inv (m\<lparr>gvkResources := (gvkResources m)(g \<mapsto> s)\<rparr>)" for g s
    by (rule watchers_inv_gvkResources [OF wi]) auto
  show "watchers_inv m'"
  proof (cases rule: updateGVK_cases [where E = E and m = m and r = r and w = w])
    case (present s)
    then show ?thesis using upd gi by auto
  next
    case (started m1 w1)
    have "watchers_inv m1"
      by (rule startWatcher_watchers_inv [OF _ _ started(2)]) (use gi in simp_all)
    then have "watchers_inv (m1\<lparr>gvkResources := (gvkResources m)(ref_GroupVersionKind E r \<mapsto> set_Insert E r (set_new E))\<rparr>)"
      by (rule watchers_inv_gvkResources) (auto simp: startWatcher_frame(3) [OF started(2)])
    then show ?thesis using started(3) upd by simp
  next
    case (failed res w1)
    then show ?thesis using upd gi by auto
  qed
qed

text \<open>Storing a hash for a tracked resource and adding it to its GVK's set keeps the invariant.\<close>

lemma updateGVK_inv:
  assumes inv: "manager_inv E m" and "is_tracked m r"
    and upd: "updateGVKMapAndStartWatcher E r (m\<lparr>resourceHashes := (resourceHashes m)(r \<mapsto> h)\<rparr>, w) = (x, m', w')"
  shows "manager_inv E m'"
proof (rule manager_invI)
  let ?m = "m\<lparr>resourceHashes := (resourceHashes m)(r \<mapsto> h)\<rparr>"
  note frame = updateGVK_frame [OF upd]
  show "consumers_inv E m'"
    using manager_invD(1) [OF inv] consumers_inv_cong [of m' m E] frame(1) by simp
  have tr: "is_tracked m' = is_tracked m" using frame(1) by (intro is_tracked_cong) simp
  show "hashes_inv E m'"
    using hashes_invD [OF manager_invD(2) [OF inv]] frame(2) updateGVK_sets [OF upd] assms(2)
    by (intro hashes_invI) (auto simp: tr split: if_splits, blast+)
  have "watchers_inv ?m" using manager_invD(3) [OF inv] watchers_inv_cong [of ?m m] by simp
  then show "watchers_inv m'" by (rule updateGVK_watchers_inv [OF _ upd])
qed


lemma RegisterResource_tracked [map_law]:
  assumes "GetObjectReference E rs = Ok (q, rs')"
    and "RegisterResource E r t (rs, m, w) = (x, rs1, m', w')"
  shows "tracked E m' = insert (r, t, q) (tracked E m)"
proof (cases rule: RegisterResource_cases [where E = E and rs = rs and r = r and t = t and m = m and w = w])
  case (hashed q' rs2 u w1 h y m2 w2)
  have "tracked E m2 = tracked E (trackResource E r t q' m)"
    by (rule tracked_cong) (simp add: updateGVK_frame(1) [OF hashed(5)])
  then show ?thesis using assms hashed(1,6) by (simp add: map_law)
qed (use assms in \<open>auto simp: map_law\<close>)

lemma RegisterResource_inv [inv_intro]:
  assumes inv: "manager_inv E m" and "RegisterResource E r t (rs, m, w) = (x, rs1, m', w')"
  shows "manager_inv E m'"
proof (cases rule: RegisterResource_cases [where E = E and rs = rs and r = r and t = t and m = m and w = w])
  case (hashed q rs1 u w1 h y m2 w2)
  have "manager_inv E m2"
    by (rule updateGVK_inv [OF trackResource_inv [OF inv]])
      (use hashed(5) in \<open>simp_all\<close>)
  then show ?thesis using assms(2) hashed(6) by simp
qed (use assms trackResource_inv [OF inv] in auto)

text \<open>Reacting to notifications keeps the invariant and the tracking relation.\<close>

lemma react_inv [inv_intro]: "manager_inv E m \<Longrightarrow> manager_inv E (react E g obj m)"
  using react_queue_only [of E g obj m] by auto

lemma handleEvent_inv [inv_intro]: "manager_inv E m \<Longrightarrow> manager_inv E (handleEvent E g ev m)"
  using handleEvent_queue_only [of E g ev m] by auto

lemma fold_handleEvent_inv [inv_intro]:
  "manager_inv E m \<Longrightarrow> manager_inv E (fold (handleEvent E g) evs m)"
  by (induction evs arbitrary: m) (auto intro: handleEvent_inv)

text \<open>
  Removing the last consumer: the hash goes, the GVK's set loses the resource, and with its last
  resource the GVK loses its watcher.
\<close>

lemma stopTrackingResource_gvkResources:
  "gvkResources (stopTrackingResource E r m) g =
     (if g = ref_GroupVersionKind E r
      then (case gvkResources m g of None \<Rightarrow> None
        | Some s \<Rightarrow> if elems E s \<subseteq> {r} then None else Some (set_Erase E r s))
      else gvkResources m g)"
  by (auto simp: stopTrackingResource_def Let_def split: option.split)

lemma stopTrackingResource_watchers:
  "watchers (stopTrackingResource E r m) g =
     (if g = ref_GroupVersionKind E r \<and> (\<exists>s. gvkResources m g = Some s \<and> elems E s \<subseteq> {r})
      then None else watchers m g)"
  by (auto simp: stopTrackingResource_def Let_def split: option.split)

lemma stopTrackingResource_watchers_inv:
  assumes "watchers_inv m"
  shows "watchers_inv (stopTrackingResource E r m)"
proof -
  let ?g = "ref_GroupVersionKind E r"
  let ?m = "m\<lparr>resourceHashes := (resourceHashes m)(r := None)\<rparr>"
  have wi: "watchers_inv ?m" using assms watchers_inv_cong [of ?m m] by simp
  show ?thesis
  proof (cases "gvkResources m ?g")
    case None
    with wi show ?thesis by (simp add: stopTrackingResource_def Let_def)
  next
    case (Some s)
    let ?m2 = "?m\<lparr>gvkResources := (gvkResources m)(?g \<mapsto> set_Erase E r s)\<rparr>"
    have m2: "watchers_inv ?m2" by (rule watchers_inv_gvkResources [OF wi]) auto
    have "stopWatcher ?g (?m2\<lparr>gvkResources := (gvkResources m)(?g := None)\<rparr>)
        = (stopWatcher ?g ?m2)\<lparr>gvkResources := (gvkResources m)(?g := None)\<rparr>"
      by (simp add: stopWatcher_def split: option.split)
    with stopWatcher_watchers_inv [OF m2, of ?g] m2 Some show ?thesis
      by (simp add: stopTrackingResource_def Let_def)
  qed
qed

lemma stopTrackingResource_inv:
  assumes "consumers_inv E m" and "watchers_inv m"
    and "\<And>r' h. resourceHashes m r' = Some h \<Longrightarrow> r' = r \<or> is_tracked m r'"
    and "\<And>g s r'. gvkResources m g = Some s \<Longrightarrow> r' \<in> elems E s \<Longrightarrow>
      resourceHashes m r' \<noteq> None \<and> ref_GroupVersionKind E r' = g"
  shows "manager_inv E (stopTrackingResource E r m)"
proof (rule manager_invI)
  let ?m = "stopTrackingResource E r m"
  show "consumers_inv E ?m" using assms(1) consumers_inv_cong [of ?m m E] by simp
  show "watchers_inv ?m" by (rule stopTrackingResource_watchers_inv [OF assms(2)])
  have tr: "is_tracked ?m = is_tracked m" by (rule is_tracked_cong) simp
  show "hashes_inv E ?m"
  proof (rule hashes_invI)
    fix r' h
    show "resourceHashes ?m r' = Some h \<Longrightarrow> is_tracked ?m r'"
      using assms(3) by (auto simp: tr split: if_splits)
  next
    fix g s r'
    assume "gvkResources ?m g = Some s" and "r' \<in> elems E s"
    then obtain s0 where s0: "gvkResources m g = Some s0" "r' \<in> elems E s0"
        and ne: "g = ref_GroupVersionKind E r \<Longrightarrow> r' \<noteq> r"
      by (auto simp: stopTrackingResource_gvkResources split: if_splits option.splits)
    from assms(4) [OF s0] ne show "resourceHashes ?m r' \<noteq> None \<and> ref_GroupVersionKind E r' = g"
      by auto
  qed
qed

text \<open>
  The tracking maps after the consumer is erased, before the check whether anyone is left: erasing
  and deleting an empty entry are one update.
\<close>

lemma UnRegisterResource_cases:
  obtains (no_ref) "GetObjectReference E rs = Panic"
      and "UnRegisterResource E r t (rs, m) = (Panic, rs, m)"
  | (unknown) q rs1 where "GetObjectReference E rs = Ok (q, rs1)" and "typeMap t m r = None"
      and "UnRegisterResource E r t (rs, m) = (Ok (), rs1, m)"
  | (erased) q rs1 s m1 where "GetObjectReference E rs = Ok (q, rs1)" and "typeMap t m r = Some s"
      and "m1 = set_typeMap t ((typeMap t m)(r :=
        (if elems E s \<subseteq> {q} then None else Some (set_Erase E q s)))) m"
      and "UnRegisterResource E r t (rs, m) =
        (Ok (), rs1, if is_tracked m1 r then m1 else stopTrackingResource E r m1)"
  using GetObjectReference_not_Err [of E rs]
proof (cases "GetObjectReference E rs")
  case Panic
  then show ?thesis by (intro no_ref) (simp_all add: UnRegisterResource_def)
next
  case (Ok p)
  then obtain q rs1 where ref: "GetObjectReference E rs = Ok (q, rs1)" by (cases p) auto
  show ?thesis
  proof (cases "typeMap t m r")
    case None
    with ref show ?thesis by (intro unknown) (simp_all add: UnRegisterResource_def)
  next
    case (Some s)
    have "set_typeMap t (f(r := None)) (set_typeMap t f' m) = set_typeMap t (f(r := None)) m" for f f'
      by (cases t) (simp_all add: set_typeMap_def)
    moreover have "elems E s - {q} = {} \<longleftrightarrow> elems E s \<subseteq> {q}" by auto
    ultimately show ?thesis using ref Some
      by (intro erased [of q rs1 s _, OF _ _ refl]) (simp_all add: UnRegisterResource_def Let_def)
  qed
qed simp

text \<open>An operation on one entry of one tracking map, seen from the tracking relation.\<close>

lemma tracked_erase:
  assumes "typeMap t m r = Some s"
  shows "tracked E (set_typeMap t ((typeMap t m)(r :=
      (if elems E s \<subseteq> {q} then None else Some (set_Erase E q s)))) m) = tracked E m - {(r, t, q)}"
  using assms by (auto simp: tracked_def split: if_splits)

lemma UnRegisterResource_tracked [map_law]:
  assumes "GetObjectReference E rs = Ok (q, rs')"
    and "UnRegisterResource E r t (rs, m) = (x, rs1, m')"
  shows "tracked E m' = tracked E m - {(r, t, q)}"
proof (cases rule: UnRegisterResource_cases [where rs = rs and r = r and t = t and m = m])
  case (erased q' rs2 s m1)
  have q': "q' = q" using assms(1) erased(1) by simp
  have "tracked E m' = tracked E m1"
    by (rule tracked_cong) (use assms(2) erased(4) in \<open>auto split: if_splits\<close>)
  also have "\<dots> = tracked E m - {(r, t, q)}"
    using tracked_erase [OF erased(2), of q] erased(3) unfolding q' by (simp only:)
  finally show ?thesis .
qed (use assms in \<open>auto simp: tracked_def\<close>)

lemma UnRegisterResource_inv [inv_intro]:
  assumes inv: "manager_inv E m" and res: "UnRegisterResource E r t (rs, m) = (x, rs1, m')"
  shows "manager_inv E m'"
proof (cases rule: UnRegisterResource_cases [where rs = rs and r = r and t = t and m = m])
  case (erased q rs2 s m1)
  have c: "consumers_inv E m1"
    using manager_invD(1) [OF inv] by (auto simp: consumers_inv_def erased(3) split: if_splits)
  have w: "watchers_inv m1"
    using manager_invD(3) [OF inv] watchers_inv_cong [of m1 m] by (simp add: erased(3))
  have h: "r' = r \<or> is_tracked m1 r'" if "resourceHashes m1 r' = Some h" for r' h
    using hashes_invD(1) [OF manager_invD(2) [OF inv], of r'] that
    by (auto simp: erased(3) is_tracked_def split: if_splits)
  have g: "resourceHashes m1 r' \<noteq> None \<and> ref_GroupVersionKind E r' = g"
    if "gvkResources m1 g = Some s'" and "r' \<in> elems E s'" for g s' r'
    using hashes_invD(2,3) [OF manager_invD(2) [OF inv]] that by (auto simp: erased(3))
  show ?thesis
  proof (cases "is_tracked m1 r")
    case True
    then have "hashes_inv E m1" using h g by (intro hashes_invI) auto
    with c w True res erased(4) show ?thesis by (simp add: manager_inv_def)
  next
    case False
    then show ?thesis
      using stopTrackingResource_inv [OF c w h g] res erased(4) by simp
  qed
qed (use assms in auto)

text \<open>
  When nobody tracks the resource any more, nothing of it is left: no hash, no place in its GVK's
  set; and the watcher is gone if it was the last of its GVK.
\<close>

lemma UnRegisterResource_forgotten:
  assumes inv: "manager_inv E m" and res: "UnRegisterResource E r t (rs, m) = (Ok (), rs1, m')"
    and "\<not> is_tracked m' r"
  shows "resourceHashes m' r = None"
    and "gvkResources m' g = Some s \<Longrightarrow> r \<notin> elems E s"
  using hashes_invD [OF manager_invD(2) [OF UnRegisterResource_inv [OF inv res]]] assms(3) by blast+

lemma UnRegisterResource_last_watcher:
  assumes inv: "manager_inv E m" and res: "UnRegisterResource E r t (rs, m) = (Ok (), rs1, m')"
    and "is_tracked m r" and gone: "\<not> is_tracked m' r"
    and only: "\<And>s. gvkResources m (ref_GroupVersionKind E r) = Some s \<Longrightarrow> elems E s \<subseteq> {r}"
  shows "watchers m' (ref_GroupVersionKind E r) = None"
    and "informers m' i \<noteq> Some (ref_GroupVersionKind E r)"
proof -
  let ?g = "ref_GroupVersionKind E r"
  show w: "watchers m' ?g = None"
  proof (cases rule: UnRegisterResource_cases [where rs = rs and r = r and t = t and m = m])
    case (erased q rs2 s m1)
    then have m': "m' = (if is_tracked m1 r then m1 else stopTrackingResource E r m1)" using res by simp
    with gone have "m' = stopTrackingResource E r m1" by (simp split: if_splits)
    moreover have "gvkResources m1 = gvkResources m" and "watchers m1 = watchers m"
      by (simp_all add: erased(3))
    ultimately show ?thesis
      using only watchers_invD(1) [OF manager_invD(3) [OF inv], of ?g]
      by (cases "gvkResources m ?g"; cases "watchers m ?g") (auto simp: stopTrackingResource_watchers)
  qed (use assms in auto)
  show "informers m' i \<noteq> Some ?g"
    using watchers_invD(2) [OF manager_invD(3) [OF UnRegisterResource_inv [OF inv res]], of ?g i] w by simp
qed

section \<open>Watching\<close>

text \<open>
  If everything with a hash was watched, it still is after a registration, unless the watcher of a
  new GVK could not be started.
\<close>

lemma updateGVK_all_watched:
  assumes aw: "all_watched E m"
    and upd: "updateGVKMapAndStartWatcher E r (m\<lparr>resourceHashes := (resourceHashes m)(r \<mapsto> h)\<rparr>, w) = (Ok (), m', w')"
  shows "all_watched E m'"
proof -
  let ?g = "ref_GroupVersionKind E r" and ?m = "m\<lparr>resourceHashes := (resourceHashes m)(r \<mapsto> h)\<rparr>"
  have hs: "resourceHashes m' = (resourceHashes m)(r \<mapsto> h)"
    using updateGVK_frame(2) [OF upd] by simp
  show ?thesis
  proof (cases rule: updateGVK_cases [where E = E and m = ?m and r = r and w = w])
    case (present s)
    then have "m' = ?m\<lparr>gvkResources := (gvkResources m)(?g \<mapsto> set_Insert E r s)\<rparr>" using upd by simp
    with present(1) aw show ?thesis by (auto simp: all_watched_def watched_def)
  next
    case (started m1 w1)
    then have m': "m' = m1\<lparr>gvkResources := (gvkResources m)(?g \<mapsto> set_Insert E r (set_new E))\<rparr>"
      using upd by simp
    have "watchers m1 ?g \<noteq> None" by (rule startWatcher_Ok [OF started(2)])
    moreover have "watchers m1 g \<noteq> None" if "watchers m g \<noteq> None" for g
      by (cases rule: startWatcher_cases [where m = "?m\<lparr>gvkResources := (gvkResources ?m)(?g \<mapsto> set_new E)\<rparr>"
            and g = ?g and E = E and w = w])
        (use started(2) that in auto)
    ultimately show ?thesis
      using aw hs started(1) by (auto simp: all_watched_def watched_def m' split: if_splits)
  next
    case (failed res w1)
    then show ?thesis using upd by auto
  qed
qed

lemma all_watched_trackResource: "all_watched E m \<Longrightarrow> all_watched E (trackResource E r t q m)"
  by (simp add: all_watched_def watched_def)

lemma RegisterResource_all_watched:
  assumes aw: "all_watched E m" and res: "RegisterResource E r t (rs, m, w) = (x, rs1, m', w')"
    and "resourceHashes m' r = None \<or> is_ok x"
  shows "all_watched E m'"
proof (cases rule: RegisterResource_cases [where E = E and rs = rs and r = r and t = t and m = m and w = w])
  case (hashed q rs2 u w1 h y m2 w2)
  then have m': "m' = m2" and "resourceHashes m2 r \<noteq> None"
    using res updateGVK_frame(2) [OF hashed(5)] by auto
  with assms(3) hashed(6) res have "y = Ok ()" by (cases y) auto
  with hashed(5) show ?thesis
    unfolding m' by (intro updateGVK_all_watched [OF all_watched_trackResource [OF aw, of r t q]]) simp
qed (use assms all_watched_trackResource in auto)

lemma stopTrackingResource_all_watched:
  assumes aw: "all_watched E m"
  shows "all_watched E (stopTrackingResource E r m)"
proof -
  have "watched E (stopTrackingResource E r m) r'" if r': "r' \<noteq> r" "resourceHashes m r' \<noteq> None" for r'
  proof -
    obtain s where s: "gvkResources m (ref_GroupVersionKind E r') = Some s" "r' \<in> elems E s"
        and w: "watchers m (ref_GroupVersionKind E r') \<noteq> None"
      using aw r'(2) by (auto simp: all_watched_def watched_def)
    then have "\<not> elems E s \<subseteq> {r}" using r'(1) by auto
    with s w r'(1) show ?thesis
      by (auto simp: watched_def stopTrackingResource_gvkResources stopTrackingResource_watchers)
  qed
  with aw show ?thesis
    by (auto simp: all_watched_def stopTrackingResource_gvkResources
        stopTrackingResource_watchers split: option.splits if_splits)
qed

lemma UnRegisterResource_all_watched:
  assumes aw: "all_watched E m" and res: "UnRegisterResource E r t (rs, m) = (x, rs1, m')"
  shows "all_watched E m'"
proof (cases rule: UnRegisterResource_cases [where rs = rs and r = r and t = t and m = m])
  case (erased q rs2 s m1)
  have "all_watched E m1" using aw by (simp add: all_watched_def watched_def erased(3))
  then show ?thesis using res erased(4) stopTrackingResource_all_watched by (auto split: if_splits)
qed (use assms in auto)

text \<open>
  Registering a resource nobody tracks and unregistering it again restores the tracking maps, the
  hashes, the watchers and the running informers.
\<close>

lemma updateGVK_then_stopTracking:
  assumes wi: "watchers_inv m" and new: "resourceHashes m r = None"
    and notin: "\<And>s. gvkResources m (ref_GroupVersionKind E r) = Some s \<Longrightarrow> r \<notin> elems E s \<and> elems E s \<noteq> {}"
    and upd: "updateGVKMapAndStartWatcher E r (m\<lparr>resourceHashes := (resourceHashes m)(r \<mapsto> h)\<rparr>, w) = (Ok (), m', w')"
  defines "m'' \<equiv> stopTrackingResource E r m'"
  shows "resourceHashes m'' = resourceHashes m" and "watchers m'' = watchers m"
    and "informers m'' = informers m"
    and "map_option (elems E) (gvkResources m'' g) = map_option (elems E) (gvkResources m g)"
proof -
  let ?g = "ref_GroupVersionKind E r" and ?m = "m\<lparr>resourceHashes := (resourceHashes m)(r \<mapsto> h)\<rparr>"
  show "resourceHashes m'' = resourceHashes m"
    using updateGVK_frame(2) [OF upd] new by (auto simp: m''_def)
  have "watchers m'' = watchers m \<and> informers m'' = informers m \<and>
      map_option (elems E) (gvkResources m'' g) = map_option (elems E) (gvkResources m g)"
  proof (cases rule: updateGVK_cases [where E = E and m = ?m and r = r and w = w])
    case (present s)
    then have m': "m' = ?m\<lparr>gvkResources := (gvkResources m)(?g \<mapsto> set_Insert E r s)\<rparr>" using upd by simp
    have "r \<notin> elems E s" and "elems E s \<noteq> {}" using notin present(1) by simp_all
    then have "\<not> elems E s \<subseteq> {r}" by auto
    with present(1) \<open>r \<notin> elems E s\<close> show ?thesis
      by (auto simp: m''_def m' stopTrackingResource_def Let_def)
  next
    case (started m1 w1)
    then have m': "m' = m1\<lparr>gvkResources := (gvkResources m)(?g \<mapsto> set_Insert E r (set_new E))\<rparr>"
      using upd by simp
    have none: "watchers m ?g = None"
      using started(1) watchers_invD(1) [OF wi, of ?g] by (cases "watchers m ?g") auto
    have fresh: "informers m (nextInformer m) = None"
      using watchers_invD(2,3) [OF wi, of _ "nextInformer m"] by (cases "informers m (nextInformer m)") auto
    show ?thesis
      by (cases rule: startWatcher_cases [where m = "?m\<lparr>gvkResources := (gvkResources ?m)(?g \<mapsto> set_new E)\<rparr>"
            and g = ?g and E = E and w = w])
        (use started(1,2) none fresh in \<open>auto simp: m''_def m' stopTrackingResource_def Let_def stopWatcher_def fun_upd_idem\<close>)
  next
    case (failed res w1)
    then show ?thesis using upd by auto
  qed
  then show "watchers m'' = watchers m" and "informers m'' = informers m"
    and "map_option (elems E) (gvkResources m'' g) = map_option (elems E) (gvkResources m g)" by simp_all
qed

lemma register_unregister:
  assumes inv: "manager_inv E m" and new: "\<not> is_tracked m r"
    and full: "\<And>g s. gvkResources m g = Some s \<Longrightarrow> elems E s \<noteq> {}"
    and reg: "RegisterResource E r t (rs, m, w) = (Ok h, rs1, m1, w1)"
    and unreg: "UnRegisterResource E r t (rs1, m1) = (Ok (), rs2, m2)"
  shows "typeMap t' m2 = typeMap t' m" and "resourceHashes m2 = resourceHashes m"
    and "watchers m2 = watchers m" and "informers m2 = informers m"
    and "map_option (elems E) (gvkResources m2 g) = map_option (elems E) (gvkResources m g)"
proof -
  have noh: "resourceHashes m r = None"
    using hashes_invD(1) [OF manager_invD(2) [OF inv], of r] new by blast
  have notin: "r \<notin> elems E s" if "gvkResources m g = Some s" for g s
    using hashes_invD(2) [OF manager_invD(2) [OF inv] that, of r] noh by auto
  have empty: "typeMap t'' m r = None" for t'' using new by (auto simp: is_tracked_def)
  obtain q u w0 y where ref: "GetObjectReference E rs = Ok (q, rs1)"
    and upd: "updateGVKMapAndStartWatcher E r
        ((trackResource E r t q m)\<lparr>resourceHashes := (resourceHashes m)(r \<mapsto> h)\<rparr>, w0) = (Ok (), m1, w1)"
    by (cases rule: RegisterResource_cases [where E = E and rs = rs and r = r and t = t and m = m and w = w])
      (use reg noh in \<open>auto split: outcome.splits\<close>)
  have tm1: "typeMap t'' m1 = typeMap t'' (trackResource E r t q m)" for t''
    using updateGVK_frame(1) [OF upd] by simp
  then have tm: "typeMap t'' m1 = (if t'' = t then (typeMap t m)(r \<mapsto> set_Insert E q (set_new E)) else typeMap t'' m)" for t''
    using empty by (simp add: trackResource_def Let_def)
  have m2: "m2 = stopTrackingResource E r (set_typeMap t ((typeMap t m1)(r := None)) m1)"
    by (cases rule: UnRegisterResource_cases [where rs = rs1 and r = r and t = t and m = m1])
      (use unreg GetObjectReference_idem [OF ref] tm empty in \<open>auto simp: is_tracked_def split: if_splits\<close>)
  have st: "stopTrackingResource E r (set_typeMap t f m1) = set_typeMap t f (stopTrackingResource E r m1)" for f
    by (cases t) (simp_all add: stopTrackingResource_def set_typeMap_def stopWatcher_def Let_def split: option.split)
  show "typeMap t' m2 = typeMap t' m" using tm empty by (auto simp: m2)
  have wi: "watchers_inv (trackResource E r t q m)" by (rule manager_invD(3) [OF trackResource_inv [OF inv]])
  note undo = updateGVK_then_stopTracking [OF wi, of r h w0 m1 w1]
  show "resourceHashes m2 = resourceHashes m" and "watchers m2 = watchers m"
    and "informers m2 = informers m"
    and "map_option (elems E) (gvkResources m2 g) = map_option (elems E) (gvkResources m g)"
    using undo noh notin full upd by (simp_all add: m2 st)
qed

end

section \<open>A run on the reference cluster\<close>

definition ex_manager :: "objref list manager" where
  "ex_manager = newManager ref_ext ''clusters'' ''c1'' ''Capi'' 5 False"

definition ex_hash :: "u8 list" where
  "ex_hash = sha256 (bytes_of_string (config_of ref_ext ex_deployment_obj (u_Content ex_deployment_obj)))"

text \<open>The manager after the example's Deployment is registered as a plain resource.\<close>

definition ex_registered :: "objref list manager" where
  "ex_registered = ex_manager\<lparr>resources := [ex_deployment_ref \<mapsto> [ex_summary_ref]],
     resourceHashes := [ex_deployment_ref \<mapsto> Some ex_hash],
     gvkResources := [ex_deployment_gvk \<mapsto> [ex_deployment_ref]],
     watchers := [ex_deployment_gvk \<mapsto> 0], informers := [0 \<mapsto> ex_deployment_gvk],
     nextInformer := 1\<rparr>"

text \<open>The same cluster, but discovery fails.\<close>

definition ex_no_discovery :: "(objref list, ref_cluster, ref_value) ext" where
  "ex_no_discovery = ref_ext\<lparr>GetAPIGroupResources := \<lambda>w. (Err (GoErr COther ''timeout''), w)\<rparr>"

lemmas tracking_run [run] = RegisterResource_def UnRegisterResource_def trackResource_def
  getUnstructured_def updateGVKMapAndStartWatcher_def stillTrackingResource_def stopTrackingResource_def

lemma ex_reference [simp]: "GetObjectReference ref_ext ex_summary = Ok (ex_summary_ref, ex_summary)"
  by (simp add: run)

lemma ex_reference_no_discovery [simp]:
  "GetObjectReference ex_no_discovery ex_summary = Ok (ex_summary_ref, ex_summary)"
  by (simp add: ex_no_discovery_def run)

lemma ex_deployment_ref_gvk [simp]: "ref_GroupVersionKind ref_ext ex_deployment_ref = ex_deployment_gvk"
  by (simp add: run)

lemma ex_register:
  "RegisterResource ref_ext ex_deployment_ref Resource (ex_summary, ex_manager, ex_cluster) =
     (Ok (Some ex_hash), ex_summary, ex_registered, ex_cluster)"
  by (simp add: ex_manager_def ex_registered_def ex_hash_def run)

lemma ex_unregister:
  "\<exists>m'. UnRegisterResource ref_ext ex_deployment_ref Resource (ex_summary, ex_registered) =
     (Ok (), ex_summary, m')"
  by (simp add: ex_manager_def ex_registered_def run)

lemma ex_manager_inv [simp]: "manager_inv ref_ext ex_manager"
  by (simp add: ex_manager_def newManager_inv)

lemma ex_registered_inv [simp]: "manager_inv ref_ext ex_registered"
  by (rule libset.RegisterResource_inv [OF ref_set.libset_axioms ex_manager_inv ex_register])

lemma ex_registered_tracked [simp]:
  "tracked ref_ext ex_registered = {(ex_deployment_ref, Resource, ex_summary_ref)}"
  using libset.RegisterResource_tracked [OF ref_set.libset_axioms ex_reference ex_register]
  by (simp add: ex_manager_def)

section \<open>Properties\<close>

text \<open>
  (C1) Registering a resource adds exactly one entry to the relation of who tracks what, whichever
  way the call ends after the requestor is known: also a failed registration leaves the resource
  tracked.
\<close>

theorem register_refines_insert:
  assumes "libset E" and "GetObjectReference E rs = Ok (q, rs')"
    and "RegisterResource E r t (rs, m, w) = (x, rs1, m', w')"
  shows "tracked E m' = insert (r, t, q) (tracked E m)"
  by (rule libset.RegisterResource_tracked [OF assms])

theorem register_refines_insert_witness:
  "tracked ref_ext ex_registered = insert (ex_deployment_ref, Resource, ex_summary_ref) (tracked ref_ext ex_manager)"
  by (rule register_refines_insert [OF ref_set.libset_axioms ex_reference ex_register])

text \<open>
  (C2) Unregistering removes exactly that entry and no other: other ResourceSummaries, other ways of
  deployment and other resources stay tracked.
\<close>

theorem unregister_refines_remove:
  assumes "libset E" and "GetObjectReference E rs = Ok (q, rs')"
    and "UnRegisterResource E r t (rs, m) = (x, rs1, m')"
  shows "tracked E m' = tracked E m - {(r, t, q)}"
  by (rule libset.UnRegisterResource_tracked [OF assms])

theorem unregister_refines_remove_witness:
  "\<exists>m'. UnRegisterResource ref_ext ex_deployment_ref Resource (ex_summary, ex_registered) =
     (Ok (), ex_summary, m') \<and> tracked ref_ext m' = {}"
proof -
  obtain m' where m': "UnRegisterResource ref_ext ex_deployment_ref Resource (ex_summary, ex_registered) =
      (Ok (), ex_summary, m')" using ex_unregister by blast
  show ?thesis
    using m' unregister_refines_remove [OF ref_set.libset_axioms ex_reference m'] by auto
qed

text \<open>
  (C11) When the last ResourceSummary that references a resource lets go of it, nothing of the resource
  is left behind: no hash, no place in a GVK's set; and if it was the only tracked resource of its
  GVK, that GVK has no watcher any more and no informer for it is running.
\<close>

theorem unregister_last_consumer:
  assumes set: "libset E" and inv: "manager_inv E m" and ref: "GetObjectReference E rs = Ok (q, rs')"
    and res: "UnRegisterResource E r t (rs, m) = (Ok (), rs1, m')"
    and last: "\<forall>t' q'. (r, t', q') \<in> tracked E m \<longleftrightarrow> t' = t \<and> q' = q"
  shows "resourceHashes m' r = None \<and>
    (\<forall>g s. gvkResources m' g = Some s \<longrightarrow> r \<notin> elems E s) \<and>
    ((\<forall>s. gvkResources m (ref_GroupVersionKind E r) = Some s \<longrightarrow> elems E s \<subseteq> {r}) \<longrightarrow>
      watchers m' (ref_GroupVersionKind E r) = None \<and>
      (\<forall>i. informers m' i \<noteq> Some (ref_GroupVersionKind E r)))"
proof -
  have inv': "manager_inv E m'" by (rule libset.UnRegisterResource_inv [OF set inv res])
  have "is_tracked m r" using last is_tracked_iff [OF manager_invD(1) [OF inv]] by auto
  moreover have gone: "\<not> is_tracked m' r"
    using last libset.UnRegisterResource_tracked [OF set ref res]
    by (auto simp: is_tracked_iff [OF manager_invD(1) [OF inv']])
  ultimately show ?thesis
    using libset.UnRegisterResource_forgotten [OF set inv res gone]
      libset.UnRegisterResource_last_watcher [OF set inv res] by blast
qed

theorem unregister_last_consumer_witness:
  "\<exists>m'. UnRegisterResource ref_ext ex_deployment_ref Resource (ex_summary, ex_registered) =
     (Ok (), ex_summary, m') \<and> resourceHashes m' ex_deployment_ref = None \<and>
     watchers m' ex_deployment_gvk = None"
proof -
  obtain m' where m': "UnRegisterResource ref_ext ex_deployment_ref Resource (ex_summary, ex_registered) =
      (Ok (), ex_summary, m')" using ex_unregister by blast
  have "\<forall>s. gvkResources ex_registered ex_deployment_gvk = Some s \<longrightarrow> elems ref_ext s \<subseteq> {ex_deployment_ref}"
    by (simp add: ex_registered_def elems_def ref_ext_sel)
  with m' unregister_last_consumer [OF ref_set.libset_axioms ex_registered_inv ex_reference m']
  show ?thesis by auto
qed

text \<open>
  Once a resource has been registered, registering it again, for any ResourceSummary and any way
  of deployment, returns the hash of the first registration without touching the cluster; hashes,
  watchers and running informers stay as they are.
\<close>

lemma register_again:
  assumes "RegisterResource E r t (rs, m, w) = (Ok h, rs1, m1, w1)"
    and "GetObjectReference E rs2 = Ok (q2, rs3)"
  shows "\<exists>m2. RegisterResource E r t2 (rs2, m1, w2) = (Ok h, rs3, m2, w2) \<and>
    resourceHashes m2 = resourceHashes m1 \<and> gvkResources m2 = gvkResources m1 \<and>
    watchers m2 = watchers m1 \<and> informers m2 = informers m1"
proof -
  have "resourceHashes m1 r = Some h" by (rule RegisterResource_Ok_hash [OF assms(1)])
  with assms(2) show ?thesis by (simp add: RegisterResource_def)
qed

lemma register_again_example:
  "\<exists>m2. RegisterResource ref_ext ex_deployment_ref HelmResource (ex_summary, ex_registered, ex_cluster) =
     (Ok (Some ex_hash), ex_summary, m2, ex_cluster) \<and> watchers m2 = watchers ex_registered"
  using register_again [OF ex_register ex_reference, of HelmResource ex_cluster] by blast

text \<open>
  (C24) Registering a resource that nobody tracks and unregistering it again restores the manager: the
  tracking maps, the hashes, the watchers and the running informers are what they were, and so are
  the elements of every GVK's set, provided that no GVK had an empty set before (a failed start of a
  watcher leaves one).
\<close>

theorem register_unregister_restores:
  assumes "libset E" and "manager_inv E m" and "\<not> is_tracked m r"
    and "\<And>g s. gvkResources m g = Some s \<Longrightarrow> elems E s \<noteq> {}"
    and "RegisterResource E r t (rs, m, w) = (Ok h, rs1, m1, w1)"
    and "UnRegisterResource E r t (rs1, m1) = (Ok (), rs2, m2)"
  shows "(\<forall>t'. typeMap t' m2 = typeMap t' m) \<and> resourceHashes m2 = resourceHashes m \<and>
    watchers m2 = watchers m \<and> informers m2 = informers m \<and>
    (\<forall>g. map_option (elems E) (gvkResources m2 g) = map_option (elems E) (gvkResources m g))"
  using libset.register_unregister [OF assms(1-3) _ assms(5,6)] assms(4) by blast

theorem register_unregister_restores_witness:
  "\<exists>m2. UnRegisterResource ref_ext ex_deployment_ref Resource (ex_summary, ex_registered) =
     (Ok (), ex_summary, m2) \<and> watchers m2 = Map.empty \<and> informers m2 = Map.empty"
proof -
  obtain m2 where m2: "UnRegisterResource ref_ext ex_deployment_ref Resource (ex_summary, ex_registered) =
      (Ok (), ex_summary, m2)" using ex_unregister by blast
  have "\<not> is_tracked ex_manager ex_deployment_ref" by (simp add: is_tracked_def ex_manager_def)
  moreover have "gvkResources ex_manager g = Some s \<Longrightarrow> elems ref_ext s \<noteq> {}" for g s
    by (simp add: ex_manager_def newManager_def)
  ultimately have "watchers m2 = watchers ex_manager \<and> informers m2 = informers ex_manager"
    using register_unregister_restores [OF ref_set.libset_axioms ex_manager_inv _ _ ex_register m2] by blast
  with m2 show ?thesis by (simp add: ex_manager_def newManager_def)
qed

text \<open>
  The error path of a registration whose resource cannot be read, which includes a resource that
  does not exist: the error is returned, the requestor is recorded, and hashes, GVK sets, watchers
  and informers do not change.
\<close>

lemma register_unreadable:
  assumes "GetObjectReference E rs = Ok (q, rs')" and "resourceHashes m r = None"
    and "getUnstructured E r w = (Err e, w')"
  shows "\<exists>m'. RegisterResource E r t (rs, m, w) = (Err e, rs', m', w') \<and>
    resourceHashes m' = resourceHashes m \<and> gvkResources m' = gvkResources m \<and>
    watchers m' = watchers m \<and> informers m' = informers m \<and> is_tracked m' r"
  using assms by (simp add: RegisterResource_def)

lemma register_unreadable_example:
  "\<exists>m'. RegisterResource ref_ext ex_deployment_ref Resource
       (ex_summary, ex_manager, ex_cluster\<lparr>c_objects := []\<rparr>) =
     (Err not_found, ex_summary, m', ex_cluster\<lparr>c_objects := []\<rparr>) \<and> is_tracked m' ex_deployment_ref"
proof -
  have "getUnstructured ref_ext ex_deployment_ref (ex_cluster\<lparr>c_objects := []\<rparr>) =
      (Err not_found, ex_cluster\<lparr>c_objects := []\<rparr>)" by (simp add: run)
  moreover have "resourceHashes ex_manager ex_deployment_ref = None"
    by (simp add: ex_manager_def newManager_def)
  ultimately show ?thesis using register_unreadable [OF ex_reference] by blast
qed

text \<open>
  (C12) Every resource with a hash is watched (it is in its GVK's set and that GVK has a watcher):
  a successful registration keeps this true, and so does every unregistration.
\<close>

theorem registered_is_watched:
  assumes "libset E" and "all_watched E m"
  shows "(RegisterResource E r t (rs, m, w) = (Ok h, rs1, m', w') \<longrightarrow> all_watched E m' \<and> watched E m' r) \<and>
    (UnRegisterResource E r t (rs, m) = (x, rs2, m'') \<longrightarrow> all_watched E m'')"
proof (intro conjI impI)
  assume reg: "RegisterResource E r t (rs, m, w) = (Ok h, rs1, m', w')"
  show "all_watched E m'" by (rule libset.RegisterResource_all_watched [OF assms reg]) simp
  with RegisterResource_Ok_hash [OF reg] show "watched E m' r" by (auto simp: all_watched_def)
next
  assume "UnRegisterResource E r t (rs, m) = (x, rs2, m'')"
  then show "all_watched E m''" by (rule libset.UnRegisterResource_all_watched [OF assms])
qed

theorem registered_is_watched_witness: "watched ref_ext ex_registered ex_deployment_ref"
proof -
  have "all_watched ref_ext ex_manager" by (simp add: all_watched_def ex_manager_def newManager_def)
  then show ?thesis
    using registered_is_watched [OF ref_set.libset_axioms] ex_register by blast
qed



end
