(* ===== verification/Evaluation.thy ===== *)
theory Evaluation
  imports Tracking
begin

text \<open>
  Evaluating queued resources for configuration drift (\<open>pkg/drift-detection/drift_evaluation.go\<close>): the
  comparison with the stored hash, the requests for reconciliation that go into the status of the
  ResourceSummaries, and the loop that drains the queue. The functions here are runs of the evaluation
  goroutine without interference; its lock regions are the steps of the theory on interleavings.
\<close>

section \<open>Definitions\<close>

definition getResourceSummaries :: "('s, 'w, 'v) ext \<Rightarrow> objref \<Rightarrow> 's manager \<Rightarrow> 's" where
  "getResourceSummaries E r m =
     (let append = (\<lambda>entry rsList. case entry of Some s \<Rightarrow> set_Append E rsList s | None \<Rightarrow> rsList)
      in append (kustomizeResources m r) (append (helmResources m r) (append (resources m r) (set_new E))))"

fun getPatches_loop ::
  "('s, 'w, 'v) ext \<Rightarrow> objref list \<Rightarrow> patch list \<Rightarrow> 'w \<Rightarrow> patch list outcome \<times> 'w" where
  "getPatches_loop E [] patches w = (Ok patches, w)"
| "getPatches_loop E (q # qs) patches w =
     (case client_Get E (ref_Namespace q) (ref_Name q) w of
        (Err e, w1) \<Rightarrow> (if IsNotFound e then getPatches_loop E qs patches w1 else (Err e, w1))
      | (Panic, w1) \<Rightarrow> (Panic, w1)
      | (Ok rs, w1) \<Rightarrow> getPatches_loop E qs (patches @ spec_Patches (rs_Spec rs)) w1)"

definition getPatches ::
  "('s, 'w, 'v) ext \<Rightarrow> objref \<Rightarrow> 's manager \<Rightarrow> 'w \<Rightarrow> patch list outcome \<times> 'w" where
  "getPatches E r m w = getPatches_loop E (set_Items E (getResourceSummaries E r m)) [] w"

definition updateResourceHash :: "objref \<Rightarrow> bytes \<Rightarrow> 's manager \<Rightarrow> 's manager" where
  "updateResourceHash r currentHash m = m\<lparr>resourceHashes := (resourceHashes m)(r \<mapsto> currentHash)\<rparr>"

fun updateResourceSummaryWithHash ::
  "('s, 'w, 'v) ext \<Rightarrow> objref \<Rightarrow> bytes \<Rightarrow> resource_hash list \<Rightarrow> resource_hash list" where
  "updateResourceSummaryWithHash E r currentHash [] = []"
| "updateResourceSummaryWithHash E r currentHash (rh # rhs) =
     (if getObjectRef E (rh_Resource rh) = r
      then rh\<lparr>rh_Hash := string_of_bytes currentHash\<rparr> # rhs
      else rh # updateResourceSummaryWithHash E r currentHash rhs)"

text \<open>Marking a ResourceSummary for reconciliation: the switch on the resource type.\<close>

definition markForReconciliation ::
  "('s, 'w, 'v) ext \<Rightarrow> objref \<Rightarrow> bytes \<Rightarrow> rtype \<Rightarrow> rs_status \<Rightarrow> rs_status" where
  "markForReconciliation E r currentHash t st = (case t of
     HelmResource \<Rightarrow> st\<lparr>HelmResourcesChanged := True,
       HelmResourceHashes := updateResourceSummaryWithHash E r currentHash (HelmResourceHashes st)\<rparr>
   | KustomizeResource \<Rightarrow> st\<lparr>KustomizeResourcesChanged := True,
       KustomizeResourceHashes := updateResourceSummaryWithHash E r currentHash (KustomizeResourceHashes st)\<rparr>
   | Resource \<Rightarrow> st\<lparr>ResourcesChanged := True,
       ResourceHashes := updateResourceSummaryWithHash E r currentHash (ResourceHashes st)\<rparr>)"

definition requestReconciliationForResourceSummary ::
  "('s, 'w, 'v) ext \<Rightarrow> objref \<Rightarrow> objref \<Rightarrow> bytes \<Rightarrow> rtype \<Rightarrow> 'w \<Rightarrow> unit outcome \<times> 'w" where
  "requestReconciliationForResourceSummary E q r currentHash t w =
     (case getUnstructured E q w of
        (Err e, w1) \<Rightarrow> (if IsNotFound e then (Ok (), w1) else (Err e, w1))
      | (Panic, w1) \<Rightarrow> (Panic, w1)
      | (Ok u, w1) \<Rightarrow>
          and_then_pure (FromUnstructured E u) w1 (\<lambda>rs.
            Status_Update E (rs\<lparr>rs_Status := markForReconciliation E r currentHash t (rs_Status rs)\<rparr>) w1))"

fun request_each ::
  "('s, 'w, 'v) ext \<Rightarrow> objref \<Rightarrow> bytes \<Rightarrow> rtype \<Rightarrow> objref list \<Rightarrow> 'w \<Rightarrow> unit outcome \<times> 'w" where
  "request_each E r currentHash t [] w = (Ok (), w)"
| "request_each E r currentHash t (q # qs) w =
     and_then (requestReconciliationForResourceSummary E q r currentHash t w)
       (\<lambda>_ w1. request_each E r currentHash t qs w1)"

text \<open>
  The outer loop: the slice \<open>resourceSummaries\<close> is declared before it and grows from one resource type
  to the next.
\<close>

fun requestReconciliations_loop ::
  "('s, 'w, 'v) ext \<Rightarrow> objref \<Rightarrow> bytes \<Rightarrow> 's manager \<Rightarrow> objref list \<Rightarrow> rtype list \<Rightarrow> 'w \<Rightarrow> unit outcome \<times> 'w" where
  "requestReconciliations_loop E r currentHash m resourceSummaries [] w = (Ok (), w)"
| "requestReconciliations_loop E r currentHash m resourceSummaries (t # ts) w =
     (case typeMap t m r of
        None \<Rightarrow> requestReconciliations_loop E r currentHash m resourceSummaries ts w
      | Some rsList \<Rightarrow>
          (let resourceSummaries' = resourceSummaries @ set_Items E rsList
           in and_then (request_each E r currentHash t resourceSummaries' w)
                (\<lambda>_ w1. requestReconciliations_loop E r currentHash m resourceSummaries' ts w1)))"

definition requestReconciliations ::
  "('s, 'w, 'v) ext \<Rightarrow> objref \<Rightarrow> bytes \<Rightarrow> 's manager \<Rightarrow> 'w \<Rightarrow> unit outcome \<times> 'w" where
  "requestReconciliations E r currentHash m w =
     requestReconciliations_loop E r currentHash m [] [Resource, HelmResource, KustomizeResource] w"

text \<open>What follows a detected drift: store the hash, then ask for reconciliation.\<close>

definition report_drift ::
  "('s, 'w, 'v) ext \<Rightarrow> objref \<Rightarrow> bytes \<Rightarrow> 's manager \<times> 'w \<Rightarrow> unit outcome \<times> 's manager \<times> 'w" where
  "report_drift E r currentHash = (\<lambda>(m, w).
     (let m1 = updateResourceHash r currentHash m
      in case requestReconciliations E r currentHash m1 w of (x, w1) \<Rightarrow> (x, m1, w1)))"

definition evaluateResource ::
  "('s, 'w, 'v) ext \<Rightarrow> objref \<Rightarrow> 's manager \<times> 'w \<Rightarrow> unit outcome \<times> 's manager \<times> 'w" where
  "evaluateResource E r = (\<lambda>(m, w).
     (case resourceHashes m r of
        None \<Rightarrow> (Ok (), m, w)
      | Some hash \<Rightarrow>
          (case getUnstructured E r w of
             (Err e, w1) \<Rightarrow>
               (if IsNotFound e then report_drift E r None (m, w1)
                else if IsNoKindMatch e then report_drift E r None (m, w1)
                else (Err e, m, w1))
           | (Panic, w1) \<Rightarrow> (Panic, m, w1)
           | (Ok u, w1) \<Rightarrow>
               (case getPatches E r m w1 of
                  (Err e, w2) \<Rightarrow> (Err e, m, w2)
                | (Panic, w2) \<Rightarrow> (Panic, m, w2)
                | (Ok patches, w2) \<Rightarrow>
                    and_then_pure (unstructuredHash E u patches) (m, w2) (\<lambda>currentHash.
                      if \<not> reflect_DeepEqual (GoBytes hash) (GoBytes currentHash)
                      then report_drift E r currentHash (m, w2)
                      else (Ok (), m, w2))))))"

section \<open>The evaluation loop\<close>

fun evaluateAll ::
  "('s, 'w, 'v) ext \<Rightarrow> objref list \<Rightarrow> 's \<Rightarrow> 's manager \<times> 'w \<Rightarrow> 's outcome \<times> 's manager \<times> 'w" where
  "evaluateAll E [] failed mw = (Ok failed, mw)"
| "evaluateAll E (r # rs) failed mw =
     (case evaluateResource E r mw of
        (Ok _, mw1) \<Rightarrow> evaluateAll E rs failed mw1
      | (Err e, mw1) \<Rightarrow> evaluateAll E rs (set_Insert E r failed) mw1
      | (Panic, mw1) \<Rightarrow> (Panic, mw1))"

text \<open>One pass: take the queue, evaluate everything in it, queue what failed again.\<close>

definition evaluateQueue ::
  "('s, 'w, 'v) ext \<Rightarrow> 's manager \<times> 'w \<Rightarrow> unit outcome \<times> 's manager \<times> 'w" where
  "evaluateQueue E = (\<lambda>(m, w).
     and_then (evaluateAll E (set_Items E (jobQueue m)) (set_new E) (m\<lparr>jobQueue := set_new E\<rparr>, w))
       (\<lambda>failed (m1, w1). (Ok (), fold (checkForConfigurationDrift E) (set_Items E failed) m1, w1)))"

text \<open>
  The goroutine: before every pass it looks whether its context is done. The list says what it sees;
  at the end of the list it is still running. The first pass signals the wait group, whose counter
  must not become negative.
\<close>

datatype loop_state = Running | Returned | Panicked

fun evaluateConfigurationDrift ::
  "('s, 'w, 'v) ext \<Rightarrow> bool list \<Rightarrow> bool \<Rightarrow> int \<Rightarrow> 's manager \<times> 'w \<Rightarrow> loop_state \<times> int \<times> 's manager \<times> 'w" where
  "evaluateConfigurationDrift E [] once wg mw = (Running, wg, mw)"
| "evaluateConfigurationDrift E (ctxDone # cs) once wg mw =
     (if ctxDone then (Returned, wg, mw)
      else (case evaluateQueue E mw of
          (Ok _, mw1) \<Rightarrow>
            (if once then evaluateConfigurationDrift E cs True wg mw1
             else if wg - 1 < 0 then (Panicked, wg - 1, mw1)
             else evaluateConfigurationDrift E cs True (wg - 1) mw1)
        | (_, mw1) \<Rightarrow> (Panicked, wg, mw1)))"

text \<open>Storing the version, once the wait group has been signalled: retried until it succeeds.\<close>

partial_function (option) storeVersion_loop ::
  "('s, 'w, 'v) ext \<Rightarrow> string \<Rightarrow> 'w \<Rightarrow> (unit outcome \<times> 'w) option" where
  "storeVersion_loop E version w =
     (case StoreDriftDetectionVersion E version w of
        (Ok _, w1) \<Rightarrow> Some (Ok (), w1)
      | (Err e, w1) \<Rightarrow> storeVersion_loop E version w1
      | (Panic, w1) \<Rightarrow> Some (Panic, w1))"

text \<open>
  Waiting for the wait group is blocked while the counter is positive; what follows runs afterwards,
  and may itself not return.
\<close>

datatype 'a waited = Waiting | Woken 'a

definition wg_Wait :: "int \<Rightarrow> 'a \<Rightarrow> 'a waited" where
  "wg_Wait wg k = (if 0 < wg then Waiting else Woken k)"

definition storeVersionForCompatibilityChecks ::
  "('s, 'w, 'v) ext \<Rightarrow> string \<Rightarrow> int \<Rightarrow> 'w \<Rightarrow> (unit outcome \<times> 'w) option waited" where
  "storeVersionForCompatibilityChecks E version wg w = wg_Wait wg (storeVersion_loop E version w)"

section \<open>The requests of one drift\<close>

text \<open>
  Which ResourceSummaries are asked to reconcile, and for which resource type, in order: the
  specification of \<open>requestReconciliations\<close>.
\<close>

definition consumers :: "('s, 'w, 'v) ext \<Rightarrow> rtype \<Rightarrow> 's manager \<Rightarrow> objref \<Rightarrow> objref list" where
  "consumers E t m r = (case typeMap t m r of None \<Rightarrow> [] | Some s \<Rightarrow> set_Items E s)"

definition reconciliation_requests ::
  "('s, 'w, 'v) ext \<Rightarrow> 's manager \<Rightarrow> objref \<Rightarrow> (objref \<times> rtype) list" where
  "reconciliation_requests E m r =
     (let upto = (\<lambda>t. case t of
            Resource \<Rightarrow> consumers E Resource m r
          | HelmResource \<Rightarrow> consumers E Resource m r @ consumers E HelmResource m r
          | KustomizeResource \<Rightarrow>
              consumers E Resource m r @ consumers E HelmResource m r @ consumers E KustomizeResource m r)
      in concat (map (\<lambda>t. if typeMap t m r = None then [] else map (\<lambda>q. (q, t)) (upto t))
           [Resource, HelmResource, KustomizeResource]))"

fun send_requests ::
  "('s, 'w, 'v) ext \<Rightarrow> objref \<Rightarrow> bytes \<Rightarrow> (objref \<times> rtype) list \<Rightarrow> 'w \<Rightarrow> unit outcome \<times> 'w" where
  "send_requests E r h [] w = (Ok (), w)"
| "send_requests E r h ((q, t) # reqs) w =
     and_then (requestReconciliationForResourceSummary E q r h t w) (\<lambda>_ w1. send_requests E r h reqs w1)"

lemma request_each_send: "request_each E r h t qs w = send_requests E r h (map (\<lambda>q. (q, t)) qs) w"
  by (induction qs arbitrary: w) (simp_all add: and_then_def split: outcome.split prod.split)

lemma send_requests_append:
  "send_requests E r h (xs @ ys) w = and_then (send_requests E r h xs w) (\<lambda>_ w1. send_requests E r h ys w1)"
  by (induction xs arbitrary: w) (auto simp: and_then_def split: outcome.split prod.split)

lemma requestReconciliations_send:
  "requestReconciliations E r h m w = send_requests E r h (reconciliation_requests E m r) w"
  by (cases "typeMap Resource m r"; cases "typeMap HelmResource m r"; cases "typeMap KustomizeResource m r")
    (simp_all add: requestReconciliations_def reconciliation_requests_def consumers_def
      request_each_send send_requests_append and_then_def Let_def split: outcome.split prod.split)

text \<open>Every consumer of the resource is asked with its own resource type, and only consumers are asked.\<close>

lemma consumers_tracked: "q \<in> set (consumers E t m r) \<longleftrightarrow> (r, t, q) \<in> tracked E m"
  by (cases "typeMap t m r") (auto simp: consumers_def tracked_def elems_def)

lemma set_reconciliation_requests:
  "(q, t) \<in> set (reconciliation_requests E m r) \<longleftrightarrow>
     typeMap t m r \<noteq> None \<and>
     (\<exists>t'. (r, t', q) \<in> tracked E m \<and>
        (t' = t \<or> t' = Resource \<or> (t' = HelmResource \<and> t = KustomizeResource)))"
  by (cases t) (auto simp: reconciliation_requests_def consumers_tracked Let_def)

section \<open>Marking a status\<close>

definition statusChanged :: "rtype \<Rightarrow> rs_status \<Rightarrow> bool" where
  "statusChanged t st = (case t of
     Resource \<Rightarrow> ResourcesChanged st
   | KustomizeResource \<Rightarrow> KustomizeResourcesChanged st
   | HelmResource \<Rightarrow> HelmResourcesChanged st)"

definition statusHashes :: "rtype \<Rightarrow> rs_status \<Rightarrow> resource_hash list" where
  "statusHashes t st = (case t of
     Resource \<Rightarrow> ResourceHashes st
   | KustomizeResource \<Rightarrow> KustomizeResourceHashes st
   | HelmResource \<Rightarrow> HelmResourceHashes st)"

lemma statusChanged_mark [simp]:
  "statusChanged t (markForReconciliation E r h t' st) \<longleftrightarrow> t = t' \<or> statusChanged t st"
  by (cases t; cases t') (simp_all add: statusChanged_def markForReconciliation_def)

lemma statusHashes_mark [simp]:
  "statusHashes t (markForReconciliation E r h t' st) =
     (if t = t' then updateResourceSummaryWithHash E r h (statusHashes t st) else statusHashes t st)"
  by (cases t; cases t') (simp_all add: statusHashes_def markForReconciliation_def)

lemma updateResourceSummaryWithHash_resources [simp]:
  "map rh_Resource (updateResourceSummaryWithHash E r h rhs) = map rh_Resource rhs"
  by (induction rhs) simp_all

lemma updateResourceSummaryWithHash_idem [simp]:
  "updateResourceSummaryWithHash E r h (updateResourceSummaryWithHash E r h rhs)
     = updateResourceSummaryWithHash E r h rhs"
  by (induction rhs) simp_all

lemma updateResourceSummaryWithHash_absent:
  "r \<notin> getObjectRef E ` rh_Resource ` set rhs \<Longrightarrow> updateResourceSummaryWithHash E r h rhs = rhs"
  by (induction rhs) auto

lemma updateResourceSummaryWithHash_first:
  assumes "r \<notin> getObjectRef E ` rh_Resource ` set xs" and "getObjectRef E (rh_Resource x) = r"
  shows "updateResourceSummaryWithHash E r h (xs @ x # ys) = xs @ x\<lparr>rh_Hash := string_of_bytes h\<rparr> # ys"
  using assms by (induction xs) auto

text \<open>The encoding of a status acts on the hashes of each type, and on nothing else.\<close>

lemma statusChanged_json [simp]: "statusChanged t (json_status E st) = statusChanged t st"
  by (cases t) (simp_all add: statusChanged_def json_status_def)

lemma statusHashes_json [simp]: "statusHashes t (json_status E st) = map (json_hash E) (statusHashes t st)"
  by (cases t) (simp_all add: statusHashes_def json_status_def)

lemma json_hash_Resource [simp]: "rh_Resource (json_hash E rh) = rh_Resource rh"
  by (simp add: json_hash_def)

section \<open>What the requests do to the stored ResourceSummaries\<close>

text \<open>
  The specification of one request on the stored ResourceSummaries: the status of the named one is
  marked, if it exists, and stored as far as the encoding allows.
\<close>

definition mark_stored ::
  "('s, 'w, 'v) ext \<Rightarrow> objref \<Rightarrow> bytes \<Rightarrow> objref \<times> rtype
     \<Rightarrow> (string \<times> string \<rightharpoonup> resource_summary) \<Rightarrow> (string \<times> string \<rightharpoonup> resource_summary)" where
  "mark_stored E r h = (\<lambda>(q, t) S k.
     if k = (ref_Namespace q, ref_Name q)
     then map_option (\<lambda>rs. rs\<lparr>rs_Status := json_status E (markForReconciliation E r h t (rs_Status rs))\<rparr>) (S k)
     else S k)"

lemma fold_mark_stored_other:
  "k \<notin> (\<lambda>(q, t). (ref_Namespace q, ref_Name q)) ` set reqs \<Longrightarrow> fold (mark_stored E r h) reqs S k = S k"
  by (induction reqs arbitrary: S) (auto simp: mark_stored_def)

text \<open>
  What a sequence of requests leaves of one ResourceSummary: the marks accumulate, the hash lists are
  updated where there was a request for their type, the rest of the object is untouched.
\<close>

definition asked_for :: "(objref \<times> rtype) list \<Rightarrow> string \<times> string \<Rightarrow> rtype \<Rightarrow> bool" where
  "asked_for reqs k t \<longleftrightarrow> (\<exists>(q, t') \<in> set reqs. t' = t \<and> (ref_Namespace q, ref_Name q) = k)"

definition marked ::
  "('s, 'w, 'v) ext \<Rightarrow> objref \<Rightarrow> bytes \<Rightarrow> (rtype \<Rightarrow> bool) \<Rightarrow> resource_summary \<Rightarrow> resource_summary \<Rightarrow> bool" where
  "marked E r h asked rs rs' \<longleftrightarrow> rs'\<lparr>rs_Status := rs_Status rs\<rparr> = rs \<and>
     (\<forall>t. (statusChanged t (rs_Status rs') \<longleftrightarrow> asked t \<or> statusChanged t (rs_Status rs)) \<and>
       statusHashes t (rs_Status rs') =
         (if asked t then map (json_hash E) (updateResourceSummaryWithHash E r h (statusHashes t (rs_Status rs)))
          else statusHashes t (rs_Status rs)))"

lemma marked_refl: "(\<And>t. \<not> asked t) \<Longrightarrow> marked E r h asked rs rs"
  by (simp add: marked_def)

lemma asked_for_Cons:
  "asked_for ((q, t) # reqs) k = (\<lambda>t'. (t' = t \<and> (ref_Namespace q, ref_Name q) = k) \<or> asked_for reqs k t')"
  by (auto simp: asked_for_def fun_eq_iff)

context api_server
begin

lemma json_hash_again [simp]: "json_hash E (json_hash E rh) = json_hash E rh"
  by (simp add: json_hash_def json_again)

lemma json_status_again [simp]: "json_status E (json_status E st) = json_status E st"
  by (simp add: json_status_def o_def)

lemma json_update_again:
  "map (json_hash E) (updateResourceSummaryWithHash E r h (map (json_hash E) rhs)) =
   map (json_hash E) (updateResourceSummaryWithHash E r h rhs)"
proof (induction rhs)
  case (Cons rh rhs)
  have overwritten: "(json_hash E rh)\<lparr>rh_Hash := string_of_bytes h\<rparr> = rh\<lparr>rh_Hash := string_of_bytes h\<rparr>" by (simp add: json_hash_def)
  show ?case using Cons.IH by (simp add: overwritten)
qed simp

lemma json_update_twice:
  "map (json_hash E) (updateResourceSummaryWithHash E r h (map (json_hash E) (updateResourceSummaryWithHash E r h rhs))) =
   map (json_hash E) (updateResourceSummaryWithHash E r h rhs)"
  by (simp add: json_update_again)

lemma marked_step:
  assumes "marked E r h asked (rs\<lparr>rs_Status := json_status E (markForReconciliation E r h t (rs_Status rs))\<rparr>) rs'"
    and "json_status E (rs_Status rs) = rs_Status rs"
  shows "marked E r h (\<lambda>t'. t' = t \<or> asked t') rs rs'"
proof -
  have "rs'\<lparr>rs_Status := st\<rparr> = rs\<lparr>rs_Status := st\<rparr>" for st
    using assms(1) unfolding marked_def by (metis resource_summary.surjective resource_summary.update_convs(7))
  moreover have "map (json_hash E) (statusHashes t' (rs_Status rs)) = statusHashes t' (rs_Status rs)" for t'
    using assms(2) statusHashes_json [of t' E "rs_Status rs"] by simp
  ultimately show ?thesis using assms(1) by (auto simp: marked_def json_update_again json_update_twice)
qed

lemma fold_mark_stored_Some:
  "S k = Some rs \<Longrightarrow> json_status E (rs_Status rs) = rs_Status rs \<Longrightarrow>
    \<exists>rs'. fold (mark_stored E r h) reqs S k = Some rs' \<and> marked E r h (asked_for reqs k) rs rs'"
proof (induction reqs arbitrary: S rs)
  case Nil
  then show ?case by (auto intro!: marked_refl simp: asked_for_def)
next
  case (Cons req reqs)
  obtain q t where req: "req = (q, t)" by (cases req)
  let ?rs = "rs\<lparr>rs_Status := json_status E (markForReconciliation E r h t (rs_Status rs))\<rparr>"
  show ?case
  proof (cases "k = (ref_Namespace q, ref_Name q)")
    case True
    then have "mark_stored E r h req S k = Some ?rs" using Cons.prems by (simp add: mark_stored_def req)
    with Cons.IH [of "mark_stored E r h req S" ?rs] True Cons.prems(2) show ?thesis
      by (auto simp: req asked_for_Cons dest!: marked_step)
  next
    case False
    then have "mark_stored E r h req S k = Some rs" using Cons.prems by (simp add: mark_stored_def req)
    with Cons.IH [of "mark_stored E r h req S" rs] False Cons.prems(2) show ?thesis by (auto simp: req asked_for_Cons)
  qed
qed

lemma requests_mark_stored:
  assumes "summaries w k = Some rs"
  shows "\<exists>rs'. fold (mark_stored E r h) reqs (summaries w) k = Some rs' \<and> marked E r h (asked_for reqs k) rs rs'"
  using fold_mark_stored_Some [of "summaries w" k rs] stored_text [of w "fst k" "snd k" rs] assms by simp

end

lemma fold_mark_stored_None: "S k = None \<Longrightarrow> fold (mark_stored E r h) reqs S k = None"
proof (induction reqs arbitrary: S)
  case (Cons req reqs)
  have "mark_stored E r h req S k = None" using Cons.prems by (cases req) (auto simp: mark_stored_def)
  with Cons.IH show ?case by simp
qed simp

context api_server
begin

text \<open>Reading an object through the manager's \<open>getUnstructured\<close>.\<close>

lemma getUnstructured_keeps: "getUnstructured E r w = (x, w') \<Longrightarrow> summaries w' = summaries w"
  by (cases "fst (GetDynamicResourceInterface E (ref_GroupVersionKind E r) (ref_Namespace r) w)";
      cases "GetDynamicResourceInterface E (ref_GroupVersionKind E r) (ref_Namespace r) w")
    (auto simp: getUnstructured_def Let_def dest!: interface_keeps get_keeps)

lemma getUnstructured_stored:
  assumes "getUnstructured E q w = (Ok u, w')" and "ref_GroupVersionKind E q = kind"
    and "FromUnstructured E u = Ok rs"
  shows "summaries w (ref_Namespace q, ref_Name q) = Some rs"
proof -
  from assms(1,2) obtain a w1 where "GetDynamicResourceInterface E kind (ref_Namespace q) w = (Ok a, w1)"
    and "dr_Get E kind (ref_Namespace q) (ref_Name q) w1 = (Ok u, w')"
    by (auto simp: getUnstructured_def Let_def)
  with assms(3) show ?thesis using get_stored interface_keeps by metis
qed

lemma getUnstructured_missing:
  assumes "getUnstructured E q w = (Err e, w')" and "ref_GroupVersionKind E q = kind" and "IsNotFound e"
  shows "summaries w (ref_Namespace q, ref_Name q) = None"
proof (cases "GetDynamicResourceInterface E kind (ref_Namespace q) w"
    "\<lambda>_ :: unit. dr_Get E kind (ref_Namespace q) (ref_Name q)" rule: and_then_cases)
  case (ok a w1)
  then have "dr_Get E kind (ref_Namespace q) (ref_Name q) w1 = (Err e, w')"
    using assms(1,2) by (simp add: getUnstructured_def Let_def)
  with ok(1) assms(3) show ?thesis using get_missing interface_keeps by metis
next
  case (err e' w1)
  then have "e' = e" using assms(1,2) by (simp add: getUnstructured_def Let_def)
  with err(1) assms(3) interface_exists show ?thesis by blast
next
  case (panic w1)
  then show ?thesis using assms(1,2) by (simp add: getUnstructured_def Let_def)
qed

text \<open>A request that succeeds has marked the ResourceSummary it names, and so has a sequence of them.\<close>

lemma request_marks:
  assumes "requestReconciliationForResourceSummary E q r h t w = (Ok (), w')"
    and "ref_GroupVersionKind E q = kind"
  shows "summaries w' = mark_stored E r h (q, t) (summaries w)"
proof (cases "getUnstructured E q w")
  case (Pair x w1)
  show ?thesis
  proof (cases x)
    case (Ok u)
    with Pair assms(1) obtain rs where rs: "FromUnstructured E u = Ok rs"
      and up: "Status_Update E (rs\<lparr>rs_Status := markForReconciliation E r h t (rs_Status rs)\<rparr>) w1 = (Ok (), w')"
      by (cases "FromUnstructured E u") (auto simp: requestReconciliationForResourceSummary_def)
    have old: "summaries w (ref_Namespace q, ref_Name q) = Some rs"
      using getUnstructured_stored Pair Ok rs assms(2) by blast
    moreover have "summaries w1 = summaries w" using getUnstructured_keeps Pair by blast
    ultimately show ?thesis
      using update_stored [OF up, of rs] stored_named [OF old]
      by (auto simp: mark_stored_def fun_eq_iff)
  next
    case (Err e)
    with Pair assms(1) have "IsNotFound e" and "w' = w1"
      by (auto simp: requestReconciliationForResourceSummary_def split: if_splits)
    moreover have "summaries w (ref_Namespace q, ref_Name q) = None"
      using getUnstructured_missing Pair Err assms(2) \<open>IsNotFound e\<close> by blast
    ultimately show ?thesis using getUnstructured_keeps Pair
      by (auto simp: mark_stored_def fun_eq_iff)
  next
    case Panic
    with Pair assms(1) show ?thesis by (simp add: requestReconciliationForResourceSummary_def)
  qed
qed

lemma send_requests_marks:
  assumes "send_requests E r h reqs w = (Ok (), w')"
    and "\<forall>(q, t) \<in> set reqs. ref_GroupVersionKind E q = kind"
  shows "summaries w' = fold (mark_stored E r h) reqs (summaries w)"
  using assms
proof (induction reqs arbitrary: w)
  case (Cons req reqs)
  obtain q t where req: "req = (q, t)" by (cases req)
  from Cons.prems(1) obtain w1 where "requestReconciliationForResourceSummary E q r h t w = (Ok (), w1)"
    and "send_requests E r h reqs w1 = (Ok (), w')" by (auto simp: req)
  with Cons req show ?case using request_marks by simp
qed simp

end

section \<open>What an evaluation changes in the manager\<close>

text \<open>An evaluation may replace hashes of resources that have one; it changes nothing else.\<close>

definition only_hashes :: "'s manager \<Rightarrow> 's manager \<Rightarrow> bool" where
  "only_hashes m m' \<longleftrightarrow> (\<exists>f. dom f = dom (resourceHashes m) \<and> m' = m\<lparr>resourceHashes := f\<rparr>)"

lemma only_hashes_refl [simp]: "only_hashes m m"
  unfolding only_hashes_def by (rule exI [of _ "resourceHashes m"]) simp

lemma only_hashes_trans [trans]: "only_hashes m m' \<Longrightarrow> only_hashes m' m'' \<Longrightarrow> only_hashes m m''"
  unfolding only_hashes_def by (elim exE conjE) (rule exI, simp)

lemma only_hashes_updateResourceHash:
  "resourceHashes m r \<noteq> None \<Longrightarrow> only_hashes m (updateResourceHash r h m)"
  unfolding only_hashes_def updateResourceHash_def
  by (rule exI [of _ "(resourceHashes m)(r \<mapsto> h)"]) auto

lemma tracked_resourceHashes [simp]: "tracked E (m\<lparr>resourceHashes := f\<rparr>) = tracked E m"
  by (rule tracked_cong) simp

lemma only_hashes_tracked: "only_hashes m m' \<Longrightarrow> tracked E m' = tracked E m"
  unfolding only_hashes_def by (elim exE conjE) simp

lemma only_hashes_fields:
  assumes "only_hashes m m'"
  shows "jobQueue m' = jobQueue m" and "typeMap t m' = typeMap t m" and "watchers m' = watchers m"
    and "gvkResources m' = gvkResources m" and "informers m' = informers m"
    and "dom (resourceHashes m') = dom (resourceHashes m)"
  using assms unfolding only_hashes_def by (elim exE conjE, simp)+

lemma only_hashes_inv:
  assumes "only_hashes m m'" and "manager_inv E m"
  shows "manager_inv E m'"
proof -
  obtain f where f: "dom f = dom (resourceHashes m)" and m': "m' = m\<lparr>resourceHashes := f\<rparr>"
    using assms(1) by (auto simp: only_hashes_def)
  have "resourceHashes m' r = None \<longleftrightarrow> resourceHashes m r = None" for r
    using domIff [of r f] domIff [of r "resourceHashes m"] f unfolding m' by (simp del: domIff not_None_eq)
  then show ?thesis
    using assms(2) consumers_inv_cong [of m' m E] hashes_inv_cong [of m' m E] watchers_inv_cong [of m' m]
    by (simp add: manager_inv_def m')
qed

lemma report_drift_manager: "fst (snd (report_drift E r h (m, w))) = updateResourceHash r h m"
  by (simp add: report_drift_def Let_def split: prod.split)

lemma report_drift_result:
  "report_drift E r h (m, w) = (x, m', w') \<longleftrightarrow>
     m' = updateResourceHash r h m \<and> requestReconciliations E r h m' w = (x, w')"
  by (auto simp: report_drift_def Let_def split: prod.splits)

text \<open>The ways an evaluation can go.\<close>

lemma evaluateResource_cases:
  obtains (untracked) "resourceHashes m r = None" "evaluateResource E r (m, w) = (Ok (), m, w)"
  | (gone) h e w1 where "resourceHashes m r = Some h" "getUnstructured E r w = (Err e, w1)"
      "IsNotFound e \<or> IsNoKindMatch e" "evaluateResource E r (m, w) = report_drift E r None (m, w1)"
  | (failed) h x w1 where "resourceHashes m r = Some h" "\<not> is_ok x" "evaluateResource E r (m, w) = (x, m, w1)"
  | (compared) h u w1 ps w2 h' where "resourceHashes m r = Some h" "getUnstructured E r w = (Ok u, w1)"
      "getPatches E r m w1 = (Ok ps, w2)" "unstructuredHash E u ps = Ok h'"
      "evaluateResource E r (m, w) = (if h = h' then (Ok (), m, w2) else report_drift E r h' (m, w2))"
proof (cases "resourceHashes m r")
  case None
  then show ?thesis by (intro untracked) (simp_all add: evaluateResource_def)
next
  case (Some h)
  obtain x w1 where x: "getUnstructured E r w = (x, w1)" by (cases "getUnstructured E r w")
  show ?thesis
  proof (cases x)
    case (Ok u)
    obtain y w2 where y: "getPatches E r m w1 = (y, w2)" by (cases "getPatches E r m w1")
    show ?thesis
    proof (cases y)
      case (Ok ps)
      show ?thesis
      proof (cases "unstructuredHash E u ps")
        case (Ok h')
        with Some x y \<open>x = Ok u\<close> \<open>y = Ok ps\<close> show ?thesis
          by (intro compared) (auto simp: evaluateResource_def)
      next
        case (Err e)
        with Some x y \<open>x = Ok u\<close> \<open>y = Ok ps\<close> show ?thesis by (intro failed) (simp_all add: evaluateResource_def)
      next
        case Panic
        with Some x y \<open>x = Ok u\<close> \<open>y = Ok ps\<close> show ?thesis by (intro failed) (simp_all add: evaluateResource_def)
      qed
    next
      case (Err e)
      with Some x y \<open>x = Ok u\<close> show ?thesis by (intro failed) (simp_all add: evaluateResource_def)
    next
      case Panic
      with Some x y \<open>x = Ok u\<close> show ?thesis by (intro failed) (simp_all add: evaluateResource_def)
    qed
  next
    case (Err e)
    with Some x show ?thesis
      by (cases "IsNotFound e \<or> IsNoKindMatch e")
        (rule gone failed; auto simp: evaluateResource_def)+
  next
    case Panic
    with Some x show ?thesis by (intro failed) (simp_all add: evaluateResource_def)
  qed
qed

lemma evaluateResource_only_hashes:
  assumes "evaluateResource E r (m, w) = (x, m', w')"
  shows "only_hashes m m'"
proof (cases rule: evaluateResource_cases [where E = E and r = r and m = m and w = w])
  case (gone h e w1)
  with assms have "report_drift E r None (m, w1) = (x, m', w')" by simp
  with gone(1) show ?thesis by (simp add: report_drift_result only_hashes_updateResourceHash)
next
  case (compared h u w1 ps w2 h')
  with assms have "m' = m \<or> report_drift E r h' (m, w2) = (x, m', w')" by (auto split: if_splits)
  with compared(1) show ?thesis by (auto simp: report_drift_result only_hashes_updateResourceHash)
qed (use assms in auto)

lemma evaluateAll_only_hashes:
  "evaluateAll E rs failed (m, w) = (x, m', w') \<Longrightarrow> only_hashes m m'"
proof (induction rs arbitrary: failed m w)
  case (Cons r rs)
  obtain y m1 w1 where y: "evaluateResource E r (m, w) = (y, m1, w1)" by (cases "evaluateResource E r (m, w)")
  then have "only_hashes m m1" by (rule evaluateResource_only_hashes)
  moreover have "only_hashes m1 m'" using Cons y by (cases y) auto
  ultimately show ?case by (rule only_hashes_trans)
qed simp

section \<open>A pass over the queue\<close>

text \<open>What each evaluation of a pass returns, in order: the specification the pass is compared with.\<close>

fun evaluation_trace ::
  "('s, 'w, 'v) ext \<Rightarrow> objref list \<Rightarrow> 's manager \<times> 'w \<Rightarrow> (objref \<times> unit outcome) list" where
  "evaluation_trace E [] mw = []"
| "evaluation_trace E (r # rs) mw =
     (case evaluateResource E r mw of (x, mw1) \<Rightarrow> (r, x) # (if x = Panic then [] else evaluation_trace E rs mw1))"

lemma fold_requeue:
  "fold (checkForConfigurationDrift E) rs m = m\<lparr>jobQueue := fold (set_Insert E) rs (jobQueue m)\<rparr>"
  by (induction rs arbitrary: m) (simp_all add: checkForConfigurationDrift_def)

context libset
begin

lemma evaluateAll_trace:
  "evaluateAll E rs failed mw = (Ok failed', mw') \<Longrightarrow> map fst (evaluation_trace E rs mw) = rs"
proof (induction rs arbitrary: failed mw)
  case (Cons r rs)
  obtain x mw1 where "evaluateResource E r mw = (x, mw1)" by (cases "evaluateResource E r mw")
  with Cons show ?case by (cases x) simp_all
qed simp

lemma evaluateAll_failed:
  "evaluateAll E rs failed mw = (Ok failed', mw') \<Longrightarrow>
    elems E failed' = elems E failed \<union> {r. \<exists>e. (r, Err e) \<in> set (evaluation_trace E rs mw)}"
proof (induction rs arbitrary: failed mw)
  case (Cons r rs)
  obtain x mw1 where "evaluateResource E r mw = (x, mw1)" by (cases "evaluateResource E r mw")
  with Cons show ?case by (cases x) (simp_all, blast?)
qed simp

lemma evaluateQueue_result:
  assumes "evaluateQueue E (m, w) = (Ok (), m', w')"
  shows "map fst (evaluation_trace E (set_Items E (jobQueue m)) (m\<lparr>jobQueue := set_new E\<rparr>, w)) = set_Items E (jobQueue m)"
    and "elems E (jobQueue m') =
      {r. \<exists>e. (r, Err e) \<in> set (evaluation_trace E (set_Items E (jobQueue m)) (m\<lparr>jobQueue := set_new E\<rparr>, w))}"
    and "\<exists>q. only_hashes (m\<lparr>jobQueue := q\<rparr>) m'"
proof -
  let ?m = "m\<lparr>jobQueue := set_new E\<rparr>"
  obtain failed m1 where all: "evaluateAll E (set_Items E (jobQueue m)) (set_new E) (?m, w) = (Ok failed, m1, w')"
    and m': "m' = fold (checkForConfigurationDrift E) (set_Items E failed) m1"
    using assms by (auto simp: evaluateQueue_def)
  show "map fst (evaluation_trace E (set_Items E (jobQueue m)) (?m, w)) = set_Items E (jobQueue m)"
    by (rule evaluateAll_trace [OF all])
  have m1: "only_hashes ?m m1" by (rule evaluateAll_only_hashes [OF all])
  have "elems E (jobQueue m') = elems E failed"
    using only_hashes_fields(1) [OF m1] by (simp add: m' fold_requeue elems_fold_Insert) (simp add: elems_def)
  then show "elems E (jobQueue m') = {r. \<exists>e. (r, Err e) \<in> set (evaluation_trace E (set_Items E (jobQueue m)) (?m, w))}"
    using evaluateAll_failed [OF all] by simp
  obtain f where "dom f = dom (resourceHashes m)" and "m1 = ?m\<lparr>resourceHashes := f\<rparr>"
    using m1 by (auto simp: only_hashes_def)
  then have "only_hashes (m\<lparr>jobQueue := jobQueue m'\<rparr>) m'"
    unfolding only_hashes_def by (intro exI [of _ f]) (simp add: m' fold_requeue)
  then show "\<exists>q. only_hashes (m\<lparr>jobQueue := q\<rparr>) m'" by (rule exI)
qed

end

text \<open>A pass over a queue of one resource.\<close>

context libset
begin

lemma evaluateQueue_single:
  assumes "elems E (jobQueue m) = {r}"
  shows "evaluateQueue E (m, w) = (case evaluateResource E r (m\<lparr>jobQueue := set_new E\<rparr>, w) of
      (Ok _, m1, w1) \<Rightarrow> (Ok (), m1, w1)
    | (Err e, m1, w1) \<Rightarrow> (Ok (), checkForConfigurationDrift E r m1, w1)
    | (Panic, m1, w1) \<Rightarrow> (Panic, m1, w1))"
proof -
  obtain x m1 w1 where x: "evaluateResource E r (m\<lparr>jobQueue := set_new E\<rparr>, w) = (x, m1, w1)" using prod_cases3 by blast
  have "set_Items E (jobQueue m) = [r]" by (rule Items_single [OF assms])
  moreover have "set_Items E (set_Insert E r (set_new E)) = [r]" by (rule Items_single) simp
  ultimately show ?thesis using x by (cases x) (simp_all add: evaluateQueue_def)
qed

end

section \<open>The wait group and the version\<close>

text \<open>
  Started with a counter of one, the goroutine signals exactly once: the counter is zero as soon as
  it has finished a pass, and no later pass changes it.
\<close>

lemma evaluateConfigurationDrift_once:
  "evaluateConfigurationDrift E cs True wg mw = (st, wg', mw') \<Longrightarrow> wg' = wg"
proof (induction cs arbitrary: mw)
  case (Cons c cs)
  obtain x mw1 where x: "evaluateQueue E mw = (x, mw1)" by (cases "evaluateQueue E mw")
  from Cons x show ?case by (cases x) (auto split: if_splits)
qed simp

lemma evaluateConfigurationDrift_first:
  assumes "evaluateConfigurationDrift E (c # cs) False 1 mw = (st, wg, mw')"
  shows "wg = (if \<not> c \<and> is_ok (fst (evaluateQueue E mw)) then 0 else 1)"
proof -
  obtain x mw1 where "evaluateQueue E mw = (x, mw1)" by (cases "evaluateQueue E mw")
  then show ?thesis
    using assms evaluateConfigurationDrift_once [of E cs 0 mw1 st wg mw'] by (cases c; cases x) auto
qed

text \<open>The state of the cluster after so many attempts to store the version.\<close>

definition after_attempts :: "('s, 'w, 'v) ext \<Rightarrow> string \<Rightarrow> nat \<Rightarrow> 'w \<Rightarrow> 'w" where
  "after_attempts E version n w = ((\<lambda>w. snd (StoreDriftDetectionVersion E version w)) ^^ n) w"

lemma storeVersion_loop_returns:
  assumes "\<And>i. i < n \<Longrightarrow> is_err (fst (StoreDriftDetectionVersion E version (after_attempts E version i w)))"
    and "StoreDriftDetectionVersion E version (after_attempts E version n w) = (Ok (), w')"
  shows "storeVersion_loop E version w = Some (Ok (), w')"
  using assms
proof (induction n arbitrary: w)
  case 0
  then show ?case by (simp add: after_attempts_def storeVersion_loop.simps)
next
  case (Suc n)
  obtain e w1 where first: "StoreDriftDetectionVersion E version w = (Err e, w1)"
    using Suc.prems(1) [of 0] by (cases "StoreDriftDetectionVersion E version w"; cases "fst (StoreDriftDetectionVersion E version w)")
      (auto simp: after_attempts_def)
  then have shift: "after_attempts E version i w1 = after_attempts E version (Suc i) w" for i
    by (simp add: after_attempts_def funpow_Suc_right del: funpow.simps)
  have "storeVersion_loop E version w1 = Some (Ok (), w')"
    using Suc.prems by (intro Suc.IH) (auto simp: shift)
  with first show ?case by (simp add: storeVersion_loop.simps [of E version w])
qed

section \<open>Drift\<close>

text \<open>
  The hash an evaluation observes: none when the object or its kind is gone, the digest of the patched
  object otherwise.
\<close>

inductive observed ::
  "('s, 'w, 'v) ext \<Rightarrow> objref \<Rightarrow> 's manager \<Rightarrow> 'w \<Rightarrow> bytes \<Rightarrow> 'w \<Rightarrow> bool" for E r m w where
  gone: "getUnstructured E r w = (Err e, w1) \<Longrightarrow> IsNotFound e \<or> IsNoKindMatch e \<Longrightarrow> observed E r m w None w1"
| present: "getUnstructured E r w = (Ok u, w1) \<Longrightarrow> getPatches E r m w1 = (Ok ps, w2) \<Longrightarrow>
    unstructuredHash E u ps = Ok h \<Longrightarrow> observed E r m w h w2"

lemma observed_Some:
  "observed E r m w h w2 \<Longrightarrow> h \<noteq> None \<Longrightarrow> resourceHashes m r = Some h \<Longrightarrow> evaluateResource E r (m, w) = (Ok (), m, w2)"
  by (auto simp: evaluateResource_def elim!: observed.cases)

lemma observed_drift:
  assumes "observed E r m w h' w2" and "resourceHashes m r = Some h" and "h \<noteq> h'"
  shows "evaluateResource E r (m, w) = report_drift E r h' (m, w2)"
  using assms by (auto simp: evaluateResource_def elim!: observed.cases)

lemma reconciliation_requests_hash [simp]:
  "reconciliation_requests E (updateResourceHash r' h m) r = reconciliation_requests E m r"
  by (simp add: reconciliation_requests_def consumers_def updateResourceHash_def Let_def)

lemma reconciliation_requests_jobQueue [simp]:
  "reconciliation_requests E (m\<lparr>jobQueue := q\<rparr>) r = reconciliation_requests E m r"
  by (simp add: reconciliation_requests_def consumers_def Let_def)

lemma getPatches_hash [simp]: "getPatches E r (updateResourceHash r' h m) w = getPatches E r m w"
  by (simp add: getPatches_def getResourceSummaries_def updateResourceHash_def)

lemma observed_hash [simp]: "observed E r (updateResourceHash r' h m) w = observed E r m w"
  by (simp add: fun_eq_iff observed.simps)

lemma observed_jobQueue [simp]: "observed E r (m\<lparr>jobQueue := q\<rparr>) = observed E r m"
  by (simp add: fun_eq_iff observed.simps getPatches_def getResourceSummaries_def)

context api_server
begin

lemma getPatches_loop_keeps: "getPatches_loop E qs ps w = (x, w') \<Longrightarrow> summaries w' = summaries w"
proof (induction qs arbitrary: ps w)
  case (Cons q qs)
  obtain y w1 where y: "client_Get E (ref_Namespace q) (ref_Name q) w = (y, w1)"
    by (cases "client_Get E (ref_Namespace q) (ref_Name q) w")
  then have "summaries w1 = summaries w" by (rule client_Get_keeps)
  with Cons y show ?case by (cases y) (auto split: if_splits)
qed simp

lemma observed_keeps: "observed E r m w h w' \<Longrightarrow> summaries w' = summaries w"
proof (induction rule: observed.induct)
  case (gone e w1)
  then show ?case using getUnstructured_keeps by blast
next
  case (present u w1 ps w2 h)
  then show ?case using getUnstructured_keeps getPatches_loop_keeps unfolding getPatches_def by metis
qed

text \<open>A drift whose requests all succeed has marked exactly the ResourceSummaries asked.\<close>

lemma drift_marks:
  assumes "observed E r m w h' w1" and "resourceHashes m r = Some h" and "h \<noteq> h'"
    and "evaluateResource E r (m, w) = (Ok (), m', w')"
    and "\<forall>t q. (r, t, q) \<in> tracked E m \<longrightarrow> ref_GroupVersionKind E q = kind"
  shows "m' = updateResourceHash r h' m"
    and "summaries w' = fold (mark_stored E r h') (reconciliation_requests E m r) (summaries w)"
proof -
  have "report_drift E r h' (m, w1) = (Ok (), m', w')"
    using observed_drift [OF assms(1-3)] assms(4) by simp
  then have "m' = updateResourceHash r h' m"
    and sent: "send_requests E r h' (reconciliation_requests E m r) w1 = (Ok (), w')"
    by (auto simp: report_drift_result requestReconciliations_send)
  then show "m' = updateResourceHash r h' m" by simp
  have "\<forall>(q, t) \<in> set (reconciliation_requests E m r). ref_GroupVersionKind E q = kind"
    using assms(5) by (auto simp: set_reconciliation_requests)
  from send_requests_marks [OF sent this] observed_keeps [OF assms(1)]
  show "summaries w' = fold (mark_stored E r h') (reconciliation_requests E m r) (summaries w)" by simp
qed

text \<open>
  The types a ResourceSummary is asked for: those with which it tracks the resource, and those that
  come later in the list of types, if somebody tracks the resource with them.
\<close>

lemma asked_for_requests:
  "asked_for (reconciliation_requests E m r) k t \<longleftrightarrow> typeMap t m r \<noteq> None \<and>
     (\<exists>t' q. (r, t', q) \<in> tracked E m \<and> (ref_Namespace q, ref_Name q) = k \<and>
        (t' = t \<or> t' = Resource \<or> (t' = HelmResource \<and> t = KustomizeResource)))"
proof -
  have "asked_for (reconciliation_requests E m r) k t \<longleftrightarrow>
      (\<exists>q. (q, t) \<in> set (reconciliation_requests E m r) \<and> (ref_Namespace q, ref_Name q) = k)"
    unfolding asked_for_def by blast
  then show ?thesis unfolding set_reconciliation_requests by blast
qed

lemma asked_for_consumer:
  "(r, t, q) \<in> tracked E m \<Longrightarrow> asked_for (reconciliation_requests E m r) (ref_Namespace q, ref_Name q) t"
  unfolding asked_for_def
  by (rule bexI [of _ "(q, t)"]) (auto simp: set_reconciliation_requests tracked_def)

end

text \<open>The ResourceSummaries whose patches an evaluation applies are all that track the resource.\<close>

context libset
begin

lemma elems_getResourceSummaries: "elems E (getResourceSummaries E r m) = {q. \<exists>t. (r, t, q) \<in> tracked E m}"
proof -
  have tr: "(r, t, q) \<in> tracked E m \<longleftrightarrow> (\<exists>s. typeMap t m r = Some s \<and> q \<in> elems E s)" for t q
    by (auto simp: tracked_def)
  have ex: "(\<exists>t. P t) \<longleftrightarrow> P Resource \<or> P HelmResource \<or> P KustomizeResource" for P
  proof
    assume "\<exists>t. P t"
    then obtain t where "P t" ..
    then show "P Resource \<or> P HelmResource \<or> P KustomizeResource" by (cases t) simp_all
  qed auto
  show ?thesis
    unfolding tr ex
    by (cases "resources m r"; cases "helmResources m r"; cases "kustomizeResources m r")
      (simp_all add: getResourceSummaries_def typeMap_def Let_def Un_def)
qed

lemma observed_single_consumer:
  assumes "\<And>t q'. (r, t, q') \<in> tracked E m \<Longrightarrow> q' = q" and "(r, t, q) \<in> tracked E m"
    and "getUnstructured E r w = (Ok u, w1)" and "client_Get E (ref_Namespace q) (ref_Name q) w1 = (Ok rs, w2)"
    and "unstructuredHash E u (spec_Patches (rs_Spec rs)) = Ok h"
  shows "observed E r m w h w2"
proof -
  have "elems E (getResourceSummaries E r m) = {q}" using assms(1,2) unfolding elems_getResourceSummaries by blast
  then have "getPatches E r m w1 = (Ok (spec_Patches (rs_Spec rs)), w2)"
    using assms(4) by (simp add: getPatches_def Items_single)
  with assms(3,5) show ?thesis by (intro observed.present)
qed

end

section \<open>An evaluation on the reference cluster\<close>

text \<open>
  The example's Deployment, tracked as a resource by one ResourceSummary and as part of a chart by
  another one, with a stored hash that is not the object's.
\<close>

definition ex_hashed_status :: rs_status where
  "ex_hashed_status = ex_status\<lparr>ResourceHashes := [\<lparr>rh_Resource = ex_deployment, rh_Hash = ''ab''\<rparr>]\<rparr>"

definition ex_summary2_ref :: objref where
  "ex_summary2_ref = ex_summary_ref\<lparr>ref_Name := ''rs2''\<rparr>"

definition ex_drifted_cluster :: ref_cluster where
  "ex_drifted_cluster = ex_cluster\<lparr>c_summaries :=
     [((''projectsveltos'', ''rs1''), ex_summary\<lparr>rs_Status := ex_hashed_status\<rparr>),
      ((''projectsveltos'', ''rs2''), ex_summary\<lparr>rs_Name := ''rs2''\<rparr>)]\<rparr>"

definition ex_stale :: "objref list manager" where
  "ex_stale = ex_registered\<lparr>helmResources := [ex_deployment_ref \<mapsto> [ex_summary2_ref]],
     resourceHashes := [ex_deployment_ref \<mapsto> Some [1]]\<rparr>"

text \<open>The same cluster, but it refuses to update a status.\<close>

definition ex_no_update :: "(objref list, ref_cluster, ref_value) ext" where
  "ex_no_update = ref_ext\<lparr>Status_Update := \<lambda>rs w. (Err (GoErr COther ''conflict''), w)\<rparr>"

lemmas [run] = evaluateResource_def report_drift_def requestReconciliations_def
  requestReconciliationForResourceSummary_def markForReconciliation_def updateResourceHash_def
  getPatches_def getResourceSummaries_def ex_hashed_status_def ex_summary2_ref_def
  ex_drifted_cluster_def IsNotFound_def IsNoKindMatch_def

lemma ex_hash_length: "length ex_hash = 32"
  by (simp add: ex_hash_def)

lemma ex_stale_differs: "Some [1] \<noteq> Some ex_hash"
proof
  assume "Some [1] = Some ex_hash"
  then have "length ex_hash = length [1 :: u8]" by simp
  with ex_hash_length show False by simp
qed

lemma ex_stale_observed: "observed ref_ext ex_deployment_ref ex_stale ex_drifted_cluster (Some ex_hash) ex_drifted_cluster"
  by (rule observed.present [where ps = "[]" and u = ex_deployment_obj and ?w1.0 = ex_drifted_cluster])
    (simp_all add: ex_stale_def ex_registered_def ex_manager_def ex_hash_def run)

lemma ex_stale_tracked:
  "tracked ref_ext ex_stale = {(ex_deployment_ref, Resource, ex_summary_ref), (ex_deployment_ref, HelmResource, ex_summary2_ref)}"
proof -
  have "typeMap t ex_stale r = (if r = ex_deployment_ref then
      (case t of Resource \<Rightarrow> Some [ex_summary_ref] | HelmResource \<Rightarrow> Some [ex_summary2_ref] | KustomizeResource \<Rightarrow> None)
      else None)" for t r
    by (cases t) (simp_all add: ex_stale_def ex_registered_def ex_manager_def newManager_def typeMap_def)
  then show ?thesis
    by (auto simp: tracked_def elems_def ref_ext_sel split: rtype.splits if_splits)
qed

lemma ex_stale_hash: "resourceHashes ex_stale ex_deployment_ref = Some (Some [1])"
  by (simp add: ex_stale_def)

lemma ex_stale_run:
  "\<exists>w'. evaluateResource ref_ext ex_deployment_ref (ex_stale, ex_drifted_cluster) =
     (Ok (), updateResourceHash ex_deployment_ref (Some ex_hash) ex_stale, w')"
  unfolding observed_drift [OF ex_stale_observed ex_stale_hash ex_stale_differs]
  by (simp add: ex_stale_def ex_registered_def ex_manager_def run)

lemma ex_stale_stored:
  "ref_summaries ex_drifted_cluster (ref_Namespace ex_summary_ref, ref_Name ex_summary_ref) =
     Some (ex_summary\<lparr>rs_Status := ex_hashed_status\<rparr>)"
  by (simp add: Reference_Cluster.ref_summaries_def ex_drifted_cluster_def ex_summary_def ex_summary_ref_def
      ref_stored_def ref_json_def ex_hashed_status_def ex_status_def)

lemma ex_stale_kinds:
  "\<forall>t q. (ex_deployment_ref, t, q) \<in> tracked ref_ext ex_stale \<longrightarrow> ref_GroupVersionKind ref_ext q = rs_kind"
  by (simp add: ex_stale_tracked) (simp add: run)

lemma ex_no_update_run:
  "\<exists>d. observed ex_no_update ex_deployment_ref ex_stale ex_drifted_cluster (Some d) ex_drifted_cluster \<and>
    Some [1] \<noteq> Some d \<and> evaluateResource ex_no_update ex_deployment_ref (ex_stale, ex_drifted_cluster) =
      (Err (GoErr COther ''conflict''), updateResourceHash ex_deployment_ref (Some d) ex_stale, ex_drifted_cluster)"
proof -
  obtain d where d: "unstructuredHash ex_no_update ex_deployment_obj [] = Ok (Some d)" and "length d = 32"
    by (simp add: unstructuredHash_no_patches)
  have differs: "Some [1] \<noteq> Some d" using \<open>length d = 32\<close> by auto
  have seen: "observed ex_no_update ex_deployment_ref ex_stale ex_drifted_cluster (Some d) ex_drifted_cluster"
    by (rule observed.present [where ps = "[]" and u = ex_deployment_obj and ?w1.0 = ex_drifted_cluster])
      (simp_all add: d, simp_all add: ex_no_update_def ex_stale_def ex_registered_def ex_manager_def run)
  have "evaluateResource ex_no_update ex_deployment_ref (ex_stale, ex_drifted_cluster) =
      (Err (GoErr COther ''conflict''), updateResourceHash ex_deployment_ref (Some d) ex_stale, ex_drifted_cluster)"
    unfolding observed_drift [OF seen ex_stale_hash differs]
    by (simp add: ex_no_update_def ex_stale_def ex_registered_def ex_manager_def run)
  with seen differs show ?thesis by blast
qed

lemma ex_no_update_set: "libset ex_no_update"
  by unfold_locales (auto simp: ex_no_update_def ref_ext_def elems_def)

section \<open>Properties\<close>



text \<open>
  (C21) Registration and evaluation agree. After the first registration of a resource, for a
  ResourceSummary that is stored with the same patches, an evaluation that finds the object as it was
  when it was registered reports no drift and changes nothing of the manager.
\<close>

theorem unchanged_after_registration:
  assumes "libset E" and "consumers_inv E m" and "GetObjectReference E rs = Ok (q, rs')"
    and "\<not> is_tracked m r" and "resourceHashes m r = None" and "getUnstructured E r w = (Ok u, w0)"
    and "RegisterResource E r t (rs, m, w) = (Ok h, rs1, m1, w1)"
    and "getUnstructured E r w2 = (Ok u, w3)" and "client_Get E (ref_Namespace q) (ref_Name q) w3 = (Ok rs2, w4)"
    and "spec_Patches (rs_Spec rs2) = spec_Patches (rs_Spec rs)"
  shows "evaluateResource E r (m1, w2) = (Ok (), m1, w4)"
proof -
  have T: "tracked E m1 = insert (r, t, q) (tracked E m)" by (rule libset.RegisterResource_tracked [OF assms(1,3,7)])
  have only: "q' = q" if "(r, t', q') \<in> tracked E m1" for t' q'
    using that T assms(4) is_tracked_iff [OF assms(2), of r] by auto
  have hash: "unstructuredHash E u (spec_Patches (rs_Spec rs)) = Ok h"
    using assms(5-7) by (cases rule: RegisterResource_cases [where E = E and rs = rs and r = r and t = t and m = m and w = w])
      (auto split: outcome.splits)
  have obs: "observed E r m1 w2 h w4"
    by (rule libset.observed_single_consumer [OF assms(1) only, where t = t and rs = rs2]) (use T assms(8-10) hash in simp_all)
  have "h \<noteq> None" using unstructuredHash_length [OF hash] by auto
  then show ?thesis using observed_Some [OF obs] RegisterResource_Ok_hash [OF assms(7)] by simp
qed

theorem unchanged_after_registration_witness:
  "RegisterResource ref_ext ex_deployment_ref Resource (ex_summary, ex_manager, ex_cluster) =
     (Ok (Some ex_hash), ex_summary, ex_registered, ex_cluster) \<and>
   evaluateResource ref_ext ex_deployment_ref (ex_registered, ex_cluster) = (Ok (), ex_registered, ex_cluster)"
proof -
  have "\<not> is_tracked ex_manager ex_deployment_ref" "resourceHashes ex_manager ex_deployment_ref = None"
    by (simp_all add: ex_manager_def is_tracked_def) (simp add: newManager_def)
  moreover have "getUnstructured ref_ext ex_deployment_ref ex_cluster = (Ok ex_deployment_obj, ex_cluster)"
    "client_Get ref_ext (ref_Namespace ex_summary_ref) (ref_Name ex_summary_ref) ex_cluster = (Ok ex_summary, ex_cluster)"
    by (simp_all add: run)
  ultimately show ?thesis
    using unchanged_after_registration [OF ref_set.libset_axioms manager_invD(1) [OF ex_manager_inv] ex_reference _ _ _ ex_register]
      ex_register by blast
qed

text \<open>
  (C22) A resource whose observed digest is the stored one causes no write: the evaluation returns no
  error, the manager is unchanged, and so is every stored ResourceSummary.
\<close>

theorem no_drift_no_request:
  assumes "api_server E summaries kind" and "observed E r m w (Some d) w1"
    and "resourceHashes m r = Some (Some d)"
  shows "evaluateResource E r (m, w) = (Ok (), m, w1) \<and> summaries w1 = summaries w"
  using observed_Some [OF assms(2) _ assms(3)] api_server.observed_keeps [OF assms(1,2)] by simp

theorem no_drift_no_request_witness:
  "evaluateResource ref_ext ex_deployment_ref (ex_registered, ex_cluster) = (Ok (), ex_registered, ex_cluster)"
proof -
  have "observed ref_ext ex_deployment_ref ex_registered ex_cluster (Some ex_hash) ex_cluster"
    by (rule observed.present [where ps = "[]" and u = ex_deployment_obj and ?w1.0 = ex_cluster])
      (simp_all add: ex_registered_def ex_manager_def ex_hash_def run)
  moreover have "resourceHashes ex_registered ex_deployment_ref = Some (Some ex_hash)"
    by (simp add: ex_registered_def)
  ultimately show ?thesis using no_drift_no_request [OF ref_server.api_server_axioms] by blast
qed

text \<open>
  (C31) A resource that one ResourceSummary deployed directly and another one with a chart has, after a
  drift, the flag for charts set on the first one as well: the list of ResourceSummaries to ask is
  not reset between the resource types.
\<close>

theorem drift_marks_wrong_type:
  assumes "api_server E summaries kind" and "observed E r m w h' w1" and "resourceHashes m r = Some h"
    and "h \<noteq> h'" and "evaluateResource E r (m, w) = (Ok (), m', w')"
    and "\<forall>t q. (r, t, q) \<in> tracked E m \<longrightarrow> ref_GroupVersionKind E q = kind"
    and "(r, Resource, q) \<in> tracked E m" and "(r, HelmResource, q2) \<in> tracked E m"
    and "summaries w (ref_Namespace q, ref_Name q) = Some rs"
  shows "\<exists>rs'. summaries w' (ref_Namespace q, ref_Name q) = Some rs' \<and> HelmResourcesChanged (rs_Status rs')"
proof -
  have "(q, HelmResource) \<in> set (reconciliation_requests E m r)"
    using assms(7,8) by (auto simp: set_reconciliation_requests tracked_def)
  then have "asked_for (reconciliation_requests E m r) (ref_Namespace q, ref_Name q) HelmResource"
    by (force simp: asked_for_def)
  with api_server.requests_mark_stored [OF assms(1,9), of r h' "reconciliation_requests E m r"]
  have "\<exists>rs'. summaries w' (ref_Namespace q, ref_Name q) = Some rs' \<and> statusChanged HelmResource (rs_Status rs')"
    using api_server.drift_marks(2) [OF assms(1-6)] by (auto simp: marked_def)
  then show ?thesis by (simp add: statusChanged_def)
qed

theorem drift_marks_wrong_type_witness:
  "(ex_deployment_ref, HelmResource, ex_summary_ref) \<notin> tracked ref_ext ex_stale \<and>
   (\<exists>w' rs'. evaluateResource ref_ext ex_deployment_ref (ex_stale, ex_drifted_cluster) =
      (Ok (), updateResourceHash ex_deployment_ref (Some ex_hash) ex_stale, w') \<and>
    ref_summaries w' (''projectsveltos'', ''rs1'') = Some rs' \<and> HelmResourcesChanged (rs_Status rs'))"
proof -
  obtain w' where run: "evaluateResource ref_ext ex_deployment_ref (ex_stale, ex_drifted_cluster) =
     (Ok (), updateResourceHash ex_deployment_ref (Some ex_hash) ex_stale, w')" using ex_stale_run by blast
  have "(ex_deployment_ref, Resource, ex_summary_ref) \<in> tracked ref_ext ex_stale"
    and "(ex_deployment_ref, HelmResource, ex_summary2_ref) \<in> tracked ref_ext ex_stale"
    by (simp_all add: ex_stale_tracked)
  from drift_marks_wrong_type [OF ref_server.api_server_axioms ex_stale_observed ex_stale_hash
      ex_stale_differs run ex_stale_kinds this ex_stale_stored] run
  show ?thesis by (auto simp: ex_stale_tracked ex_summary_ref_def ex_summary2_ref_def)
qed

text \<open>
  (C30) A request that fails is lost when the object still exists. The new hash is stored before the
  ResourceSummaries are asked, so when asking fails the pass queues the resource again, but the next
  pass finds the stored hash equal to the digest it observes: it asks nobody, ends without error and
  leaves the queue empty. This is about an object that exists: for one that is gone an evaluation
  asks without comparing.
\<close>

theorem failed_request_is_lost:
  assumes "libset E" and "elems E (jobQueue m) = {r}" and "observed E r m w (Some d) w1"
    and "resourceHashes m r = Some h" and "h \<noteq> Some d"
    and "requestReconciliations E r (Some d) m w1 = (Err e, w')" and "observed E r m w2 (Some d) w3"
  shows "\<exists>m' m''. evaluateQueue E (m, w) = (Ok (), m', w') \<and> elems E (jobQueue m') = {r} \<and>
    resourceHashes m' r = Some (Some d) \<and> tracked E m' = tracked E m \<and>
    evaluateQueue E (m', w2) = (Ok (), m'', w3) \<and> elems E (jobQueue m'') = {} \<and> resourceHashes m'' = resourceHashes m'"
proof -
  define m1 where "m1 = updateResourceHash r (Some d) (m\<lparr>jobQueue := set_new E\<rparr>)"
  define m2 where "m2 = checkForConfigurationDrift E r m1"
  have "evaluateResource E r (m\<lparr>jobQueue := set_new E\<rparr>, w) = (Err e, m1, w')"
    using observed_drift [of E r "m\<lparr>jobQueue := set_new E\<rparr>" w "Some d" w1 h] assms(3-6)
    by (simp add: report_drift_result m1_def requestReconciliations_send)
  then have first: "evaluateQueue E (m, w) = (Ok (), m2, w')"
    by (simp add: libset.evaluateQueue_single [OF assms(1,2)] m2_def)
  have queued: "elems E (jobQueue m2) = {r}"
    using libset.elems_Insert [OF assms(1)] libset.elems_new [OF assms(1)]
    by (simp add: m2_def m1_def updateResourceHash_def checkForConfigurationDrift_def)
  let ?m3 = "m2\<lparr>jobQueue := set_new E\<rparr>"
  have seen: "observed E r ?m3 w2 (Some d) w3"
    using assms(7) by (simp add: m2_def m1_def checkForConfigurationDrift_def)
  have hash: "resourceHashes m2 r = Some (Some d)"
    by (simp add: m2_def m1_def checkForConfigurationDrift_def updateResourceHash_def)
  have "evaluateQueue E (m2, w2) = (Ok (), ?m3, w3)"
    using observed_Some [OF seen] hash by (simp add: libset.evaluateQueue_single [OF assms(1) queued])
  moreover have "tracked E m2 = tracked E m"
    by (simp add: m2_def m1_def checkForConfigurationDrift_def updateResourceHash_def)
  ultimately show ?thesis using first queued hash libset.elems_new [OF assms(1)] by auto
qed

theorem failed_request_is_lost_witness:
  "\<exists>m' m''. evaluateQueue ex_no_update (ex_stale\<lparr>jobQueue := [ex_deployment_ref]\<rparr>, ex_drifted_cluster) =
      (Ok (), m', ex_drifted_cluster) \<and> elems ex_no_update (jobQueue m') = {ex_deployment_ref} \<and>
    evaluateQueue ex_no_update (m', ex_drifted_cluster) = (Ok (), m'', ex_drifted_cluster) \<and>
    elems ex_no_update (jobQueue m'') = {}"
proof -
  obtain d where seen: "observed ex_no_update ex_deployment_ref ex_stale ex_drifted_cluster (Some d) ex_drifted_cluster"
    and differs: "Some [1] \<noteq> Some d"
    and "evaluateResource ex_no_update ex_deployment_ref (ex_stale, ex_drifted_cluster) =
      (Err (GoErr COther ''conflict''), updateResourceHash ex_deployment_ref (Some d) ex_stale, ex_drifted_cluster)"
    using ex_no_update_run by blast
  then have asks: "requestReconciliations ex_no_update ex_deployment_ref (Some d)
      (ex_stale\<lparr>jobQueue := [ex_deployment_ref]\<rparr>) ex_drifted_cluster = (Err (GoErr COther ''conflict''), ex_drifted_cluster)"
    using observed_drift [OF seen ex_stale_hash differs]
    by (simp add: report_drift_result requestReconciliations_send)
  have "observed ex_no_update ex_deployment_ref (ex_stale\<lparr>jobQueue := [ex_deployment_ref]\<rparr>) ex_drifted_cluster
      (Some d) ex_drifted_cluster" using seen by simp
  moreover have "elems ex_no_update (jobQueue (ex_stale\<lparr>jobQueue := [ex_deployment_ref]\<rparr>)) = {ex_deployment_ref}"
    by (simp add: elems_def ex_no_update_def ref_ext_sel)
  moreover have "resourceHashes (ex_stale\<lparr>jobQueue := [ex_deployment_ref]\<rparr>) ex_deployment_ref = Some (Some [1])"
    by (simp add: ex_stale_hash)
  ultimately show ?thesis using failed_request_is_lost [OF ex_no_update_set _ _ _ differs asks] by blast
qed

text \<open>
  (C15) One pass over the queue evaluates every queued resource once; afterwards the queue holds exactly
  the resources whose evaluation failed, and nothing has changed but the hashes of resources that had
  one: who tracks what and the watchers are as before, and the invariant is kept.
\<close>

theorem pass_requeues_failures:
  assumes "libset E" and "evaluateQueue E (m, w) = (Ok (), m', w')"
    and "trace = evaluation_trace E (set_Items E (jobQueue m)) (m\<lparr>jobQueue := set_new E\<rparr>, w)"
  shows "map fst trace = set_Items E (jobQueue m) \<and> elems E (jobQueue m') = {r. \<exists>e. (r, Err e) \<in> set trace} \<and>
    tracked E m' = tracked E m \<and> watchers m' = watchers m \<and> gvkResources m' = gvkResources m \<and>
    dom (resourceHashes m') = dom (resourceHashes m) \<and> (manager_inv E m \<longrightarrow> manager_inv E m')"
proof -
  note pass = libset.evaluateQueue_result [OF assms(1,2)]
  obtain q where q: "only_hashes (m\<lparr>jobQueue := q\<rparr>) m'" using pass(3) by blast
  from only_hashes_fields [OF q] only_hashes_tracked [OF q, of E] only_hashes_inv [OF q, of E] pass(1,2)
  show ?thesis by (simp add: assms(3))
qed

theorem pass_requeues_failures_witness:
  "\<exists>m' w'. evaluateQueue ex_no_update (ex_stale\<lparr>jobQueue := [ex_deployment_ref]\<rparr>, ex_drifted_cluster) = (Ok (), m', w') \<and>
    elems ex_no_update (jobQueue m') = {ex_deployment_ref}"
proof -
  let ?m = "ex_stale\<lparr>jobQueue := [ex_deployment_ref]\<rparr>"
  have sets: "set_new ex_no_update = []" "set_Items ex_no_update = remdups" "set_Insert ex_no_update = (\<lambda>x s. x # s)"
    by (simp_all add: ex_no_update_def ref_ext_def fun_eq_iff)
  have start: "ex_stale\<lparr>jobQueue := []\<rparr> = ex_stale"
    by (simp add: sets ex_stale_def ex_registered_def ex_manager_def newManager_def ref_ext_sel)
  obtain d where run: "evaluateResource ex_no_update ex_deployment_ref (ex_stale, ex_drifted_cluster) =
      (Err (GoErr COther ''conflict''), updateResourceHash ex_deployment_ref (Some d) ex_stale, ex_drifted_cluster)"
    using ex_no_update_run by blast
  have "\<exists>m' w'. evaluateQueue ex_no_update (?m, ex_drifted_cluster) = (Ok (), m', w')"
    by (simp add: evaluateQueue_def start run sets)
  then obtain m' w' where pass: "evaluateQueue ex_no_update (?m, ex_drifted_cluster) = (Ok (), m', w')" by blast
  from pass_requeues_failures [OF ex_no_update_set pass refl] pass
  show ?thesis by (auto simp: sets start run)
qed

text \<open>
  (C23) The version is stored only after the first pass over the queue. With the counter at one, which
  is where the creation of the manager puts it, the goroutine that stores the version is blocked
  before the first pass, and still blocked after it if the context was done or the pass panicked;
  exactly when the first pass has ended is it woken, and then, if some attempts fail and a later one
  succeeds, it returns with the result of that attempt. A first pass that ends before the counter
  was raised to one, which the order of the two statements does not exclude, panics.
\<close>

theorem version_stored_after_first_pass:
  assumes "evaluateConfigurationDrift E (c # cs) False 1 mw = (st, wg, mw')"
    and "ended \<longleftrightarrow> \<not> c \<and> is_ok (fst (evaluateQueue E mw))"
  shows "storeVersionForCompatibilityChecks E version (fst (snd (evaluateConfigurationDrift E [] False 1 mw))) w = Waiting \<and>
    (storeVersionForCompatibilityChecks E version wg w = Waiting \<longleftrightarrow> \<not> ended) \<and>
    (ended \<longrightarrow> (\<forall>n w'.
       (\<forall>i < n. is_err (fst (StoreDriftDetectionVersion E version (after_attempts E version i w)))) \<and>
       StoreDriftDetectionVersion E version (after_attempts E version n w) = (Ok (), w') \<longrightarrow>
       storeVersionForCompatibilityChecks E version wg w = Woken (Some (Ok (), w')))) \<and>
    (ended \<longrightarrow> evaluateConfigurationDrift E (c # cs) False 0 mw = (Panicked, -1, snd (evaluateQueue E mw)))"
proof (intro conjI impI allI; (elim conjE)?)
  note wg = evaluateConfigurationDrift_first [OF assms(1)]
  show "storeVersionForCompatibilityChecks E version (fst (snd (evaluateConfigurationDrift E [] False 1 mw))) w = Waiting"
    by (simp add: storeVersionForCompatibilityChecks_def wg_Wait_def)
  show "storeVersionForCompatibilityChecks E version wg w = Waiting \<longleftrightarrow> \<not> ended"
    by (auto simp: storeVersionForCompatibilityChecks_def wg_Wait_def wg assms(2))
  show "storeVersionForCompatibilityChecks E version wg w = Woken (Some (Ok (), w'))"
    if ended and "\<forall>i < n. is_err (fst (StoreDriftDetectionVersion E version (after_attempts E version i w)))"
      and "StoreDriftDetectionVersion E version (after_attempts E version n w) = (Ok (), w')" for n w'
    using storeVersion_loop_returns [of n E version w w'] that wg
    by (simp add: storeVersionForCompatibilityChecks_def wg_Wait_def assms(2))
  show "evaluateConfigurationDrift E (c # cs) False 0 mw = (Panicked, -1, snd (evaluateQueue E mw))" if ended
    using that by (cases "evaluateQueue E mw"; cases "fst (evaluateQueue E mw)") (auto simp: assms(2))
qed

theorem version_stored_after_first_pass_witness:
  "storeVersionForCompatibilityChecks ref_ext ''v1'' 1 ex_cluster = Waiting \<and>
   evaluateConfigurationDrift ref_ext [False] False 1 (ex_manager, ex_cluster) = (Running, 0, ex_manager, ex_cluster) \<and>
   storeVersionForCompatibilityChecks ref_ext ''v1'' 0 ex_cluster =
     Woken (Some (Ok (), ex_cluster\<lparr>c_version := Some ''v1''\<rparr>))"
proof -
  have pass: "evaluateQueue ref_ext (ex_manager, ex_cluster) = (Ok (), ex_manager, ex_cluster)"
    by (simp add: evaluateQueue_def ex_manager_def run)
  have loop: "evaluateConfigurationDrift ref_ext [False] False 1 (ex_manager, ex_cluster) = (Running, 0, ex_manager, ex_cluster)"
    by (simp add: pass)
  have stored: "StoreDriftDetectionVersion ref_ext ''v1'' (after_attempts ref_ext ''v1'' 0 ex_cluster) =
      (Ok (), ex_cluster\<lparr>c_version := Some ''v1''\<rparr>)"
    by (simp add: after_attempts_def run)
  have ended: "True \<longleftrightarrow> \<not> False \<and> is_ok (fst (evaluateQueue ref_ext (ex_manager, ex_cluster)))" by (simp add: pass)
  note all = version_stored_after_first_pass [OF loop ended, of "''v1''" ex_cluster]
  from all stored have "storeVersionForCompatibilityChecks ref_ext ''v1'' 0 ex_cluster =
     Woken (Some (Ok (), ex_cluster\<lparr>c_version := Some ''v1''\<rparr>))" by blast
  with all loop show ?thesis by simp
qed

end
