(* ===== verification/Tracker.thy ===== *)
theory Tracker
  imports Tracking
begin

text \<open>
  The manager as its client sees it. The reconciler registers and unregisters resources in loops and
  relies on what each call does to the relation of who tracks what; the locale \<open>tracker\<close> states
  that contract and holds the lemmas on the loops, and the manager's operations are shown to meet it.
\<close>

section \<open>The loops\<close>

text \<open>\<^verbatim>\<open>for i := range xs { if err := f(&xs[i]); err != nil { return err } }\<close>\<close>

fun for_each :: "('a \<Rightarrow> 'st \<Rightarrow> unit outcome \<times> 'st) \<Rightarrow> 'a list \<Rightarrow> 'st \<Rightarrow> unit outcome \<times> 'st" where
  "for_each f [] st = (Ok (), st)"
| "for_each f (x # xs) st = and_then (f x st) (\<lambda>_ st1. for_each f xs st1)"

text \<open>
  The registration loop of the reconciler: resources to ignore are skipped, a missing resource gets an
  empty hash, the hashes are collected as hexadecimal digits.
\<close>

fun register_loop ::
  "(resource \<Rightarrow> objref) \<Rightarrow> (objref \<Rightarrow> 'st \<Rightarrow> bytes outcome \<times> 'st) \<Rightarrow> resource list \<Rightarrow> resource_hash list \<Rightarrow> 'st
     \<Rightarrow> resource_hash list outcome \<times> 'st" where
  "register_loop ref reg [] hashes st = (Ok hashes, st)"
| "register_loop ref reg (x # xs) hashes st =
     (if res_IgnoreForConfigurationDrift x then register_loop ref reg xs hashes st
      else (let append = (\<lambda>currentHash. hashes @ [\<lparr>rh_Resource = x, rh_Hash = sprintf_x currentHash\<rparr>])
        in case reg (ref x) st of
             (Ok currentHash, st1) \<Rightarrow> register_loop ref reg xs (append currentHash) st1
           | (Err e, st1) \<Rightarrow>
               (if \<not> IsNotFound e then (Err e, st1)
                else register_loop ref reg xs (append (Some (bytes_of_string []))) st1)
           | (Panic, st1) \<Rightarrow> (Panic, st1)))"

lemma register_loop_append:
  "register_loop ref reg (xs @ ys) hashes st =
     and_then (register_loop ref reg xs hashes st) (\<lambda>hashes' st1. register_loop ref reg ys hashes' st1)"
  by (induction xs arbitrary: hashes st) (auto simp: Let_def split: outcome.split prod.split)

section \<open>The type information of a ResourceSummary\<close>

text \<open>On the way the ResourceSummary may get its type information, and nothing else.\<close>

definition typed :: "('s, 'w, 'v) ext \<Rightarrow> resource_summary \<Rightarrow> resource_summary \<Rightarrow> bool" where
  "typed E rs rs' \<longleftrightarrow> rs' = rs \<or> (\<exists>q. GetObjectReference E rs = Ok (q, rs'))"

lemma typed_refl [simp]: "typed E rs rs"
  by (simp add: typed_def)

lemma typed_trans: "typed E rs rs1 \<Longrightarrow> typed E rs1 rs2 \<Longrightarrow> typed E rs rs2"
  unfolding typed_def by (metis GetObjectReference_idem outcome.inject(1) prod.inject)

lemma typed_frame:
  assumes "typed E rs rs'"
  shows "rs_Status rs' = rs_Status rs" and "rs_Spec rs' = rs_Spec rs" and "rs_Finalizers rs' = rs_Finalizers rs"
    and "rs_DeletionTimestamp rs' = rs_DeletionTimestamp rs"
    and "rs_Namespace rs' = rs_Namespace rs" and "rs_Name rs' = rs_Name rs"
  using assms by (auto simp: typed_def dest: GetObjectReference_frame)

lemma typed_reference: "typed E rs rs' \<Longrightarrow> GetObjectReference E rs' = GetObjectReference E rs"
  by (auto simp: typed_def GetObjectReference_idem)

lemma typed_RegisterResource:
  assumes "RegisterResource E r t (rs, m, w) = (x, rs1, m', w')"
  shows "typed E rs rs1"
  by (cases rule: RegisterResource_cases [where E = E and rs = rs and r = r and t = t and m = m and w = w])
    (use assms in \<open>auto simp: typed_def\<close>)

lemma typed_UnRegisterResource:
  assumes "UnRegisterResource E r t (rs, m) = (x, rs1, m')"
  shows "typed E rs rs1"
proof (cases "GetObjectReference E rs")
  case (Ok p)
  then show ?thesis using assms
    by (cases p) (auto simp: UnRegisterResource_def typed_def Let_def split: option.splits)
next
  case Panic
  then show ?thesis using assms by (simp add: UnRegisterResource_def)
qed simp

section \<open>Frame lemmas\<close>

lemma RegisterResource_jobQueue:
  assumes "RegisterResource E r t (rs, m, w) = (x, rs1, m', w')"
  shows "jobQueue m' = jobQueue m"
proof (cases rule: RegisterResource_cases [where E = E and rs = rs and r = r and t = t and m = m and w = w])
  case (hashed q' rs2 u w1 h y m2 w2)
  then show ?thesis using assms updateGVK_frame(3) [OF hashed(5)] by simp
qed (use assms in auto)

lemma RegisterResource_summary:
  assumes "RegisterResource E r t (rs, m, w) = (x, rs1, m', w')" and "GetObjectReference E rs = Ok (q, rs')"
  shows "rs1 = rs'"
  by (cases rule: RegisterResource_cases [where E = E and rs = rs and r = r and t = t and m = m and w = w])
    (use assms in auto)

lemma RegisterResource_no_reference:
  assumes "RegisterResource E r t (rs, m, w) = (x, rs1, m', w')" and "x \<noteq> Panic"
  obtains q where "GetObjectReference E rs = Ok (q, rs1)"
  by (cases rule: RegisterResource_cases [where E = E and rs = rs and r = r and t = t and m = m and w = w])
    (use assms in auto)

section \<open>The contract\<close>

locale tracker =
  fixes T :: "'m \<Rightarrow> (objref \<times> rtype \<times> objref) set" and keeps :: "'m \<Rightarrow> bool"
    and reference :: "resource_summary \<Rightarrow> (objref \<times> resource_summary) outcome"
    and register :: "objref \<Rightarrow> rtype \<Rightarrow> resource_summary \<times> 'm \<times> 'w \<Rightarrow> bytes outcome \<times> resource_summary \<times> 'm \<times> 'w"
    and unregister :: "objref \<Rightarrow> rtype \<Rightarrow> resource_summary \<times> 'm \<Rightarrow> unit outcome \<times> resource_summary \<times> 'm"
  assumes reference_again: "reference rs = Ok (q, rs') \<Longrightarrow> reference rs' = Ok (q, rs')"
    and register_T: "reference rs = Ok (q, rs') \<Longrightarrow> register r t (rs, m, w) = (x, rs1, m', w') \<Longrightarrow>
      T m' = insert (r, t, q) (T m) \<and> rs1 = rs'"
    and unregister_T: "reference rs = Ok (q, rs') \<Longrightarrow> \<exists>m'. unregister r t (rs, m) = (Ok (), rs', m') \<and>
      T m' = T m - {(r, t, q)}"
    and register_inv: "keeps m \<Longrightarrow> register r t (rs, m, w) = (x, rs1, m', w') \<Longrightarrow> keeps m'"
    and unregister_inv: "keeps m \<Longrightarrow> unregister r t (rs, m) = (y, rs1, m') \<Longrightarrow> keeps m'"
begin

text \<open>Unregistering a list never fails and removes exactly its entries.\<close>

lemma unregister_list:
  "reference rs = Ok (q, rs') \<Longrightarrow> \<exists>rs1 m'. for_each (\<lambda>r. unregister r t) refs (rs, m) = (Ok (), rs1, m') \<and>
    T m' = T m - {(r, t, q) | r. r \<in> set refs} \<and> (refs = [] \<and> rs1 = rs \<or> rs1 = rs')"
proof (induction refs arbitrary: rs m)
  case (Cons r refs)
  obtain m1 where m1: "unregister r t (rs, m) = (Ok (), rs', m1)" "T m1 = T m - {(r, t, q)}"
    using unregister_T [OF Cons.prems] by blast
  from Cons.IH [OF reference_again [OF Cons.prems], of m1] m1 show ?case by auto
qed auto

lemma unregister_list_inv:
  "keeps m \<Longrightarrow> for_each (\<lambda>r. unregister r t) refs (rs, m) = (x, rs1, m') \<Longrightarrow> keeps m'"
proof (induction refs arbitrary: rs m)
  case (Cons r refs)
  obtain y rs2 m2 where y: "unregister r t (rs, m) = (y, rs2, m2)" using prod_cases3 by blast
  with Cons unregister_inv [OF Cons.prems(1) y] show ?case by (cases y) auto
qed simp

text \<open>
  Registering a list adds entries for resources of the list only; when it succeeds, for all of them but
  the ignored ones, whose hashes it returns in order.
\<close>

lemma register_list:
  "reference rs = Ok (q, rs') \<Longrightarrow> register_loop ref (\<lambda>r. register r t) xs hs (rs, m, w) = (x, rs1, m', w') \<Longrightarrow>
    T m \<subseteq> T m' \<and> T m' \<subseteq> T m \<union> {(ref y, t, q) | y. y \<in> set xs \<and> \<not> res_IgnoreForConfigurationDrift y} \<and>
    (is_ok x \<longrightarrow> {(ref y, t, q) | y. y \<in> set xs \<and> \<not> res_IgnoreForConfigurationDrift y} \<subseteq> T m') \<and> (rs1 = rs \<or> rs1 = rs')"
proof (induction xs arbitrary: rs m w hs)
  case (Cons y ys)
  show ?case
  proof (cases "res_IgnoreForConfigurationDrift y")
    case True
    then show ?thesis using Cons.IH [OF Cons.prems(1), of hs m w] Cons.prems(2) by auto
  next
    case False
    obtain z rs2 m2 w2 where z: "register (ref y) t (rs, m, w) = (z, rs2, m2, w2)" using prod_cases4 by blast
    have m2: "T m2 = insert (ref y, t, q) (T m)" and rs2: "rs2 = rs'"
      using register_T [OF Cons.prems(1) z] by simp_all
    consider (stop) "m' = m2" "rs1 = rs'" "\<not> is_ok x"
      | (go) hs' where "register_loop ref (\<lambda>r. register r t) ys hs' (rs', m2, w2) = (x, rs1, m', w')"
      using Cons.prems(2) z rs2 False by (cases z) (auto split: if_splits)
    then show ?thesis
    proof cases
      case stop
      with m2 False show ?thesis by auto
    next
      case go
      from Cons.IH [OF reference_again [OF Cons.prems(1)] this] m2 False show ?thesis by auto
    qed
  qed
qed auto

lemma register_list_inv:
  "keeps m \<Longrightarrow> register_loop ref (\<lambda>r. register r t) xs hs (rs, m, w) = (x, rs1, m', w') \<Longrightarrow> keeps m'"
proof (induction xs arbitrary: rs m w hs)
  case (Cons y ys)
  obtain z rs2 m2 w2 where z: "register (ref y) t (rs, m, w) = (z, rs2, m2, w2)" using prod_cases4 by blast
  with Cons register_inv [OF Cons.prems(1) z] show ?case by (cases z) (auto split: if_splits)
qed simp

end

section \<open>The manager meets the contract\<close>

sublocale libset \<subseteq> tracker "tracked E" "manager_inv E" "GetObjectReference E" "RegisterResource E" "UnRegisterResource E"
proof
  fix rs q rs' r t m
  assume ref: "GetObjectReference E rs = Ok (q, rs')"
  show "GetObjectReference E rs' = Ok (q, rs')" by (rule GetObjectReference_idem [OF ref])
  have "\<exists>m'. UnRegisterResource E r t (rs, m) = (Ok (), rs', m')"
    using ref by (auto simp: UnRegisterResource_def Let_def split: option.split)
  then show "\<exists>m'. UnRegisterResource E r t (rs, m) = (Ok (), rs', m') \<and> tracked E m' = tracked E m - {(r, t, q)}"
    using UnRegisterResource_tracked [OF ref] by blast
next
  fix rs q rs' r t m w x rs1 m' w'
  assume "GetObjectReference E rs = Ok (q, rs')" and "RegisterResource E r t (rs, m, w) = (x, rs1, m', w')"
  then show "tracked E m' = insert (r, t, q) (tracked E m) \<and> rs1 = rs'"
    by (auto dest: RegisterResource_tracked RegisterResource_summary)
qed (fact RegisterResource_inv UnRegisterResource_inv)+

end
