(* ===== verification/Startup.thy ===== *)
theory Startup
  imports Evaluation Tracker
begin

text \<open>
  Creating the manager (\<open>InitializeManager\<close>, \<open>GetManager\<close>, \<open>Reset\<close> of \<open>pkg/drift-detection/manager.go\<close>) and
  rebuilding its maps from the status of the ResourceSummaries after a restart
  (\<open>readResourceSummaries\<close>, \<open>readResourceSummary\<close>, \<open>processResourceHashes\<close>).
\<close>

section \<open>Definitions\<close>

text \<open>
  The ResourceSummary is passed by reference to \<open>RegisterResource\<close>, as there it is part of the state.
  The hash of the status is converted to a slice of bytes; the comparison is between a slice and a
  string.
\<close>

fun processResourceHashes ::
  "('s, 'w, 'v) ext \<Rightarrow> resource_hash list \<Rightarrow> rtype \<Rightarrow> resource_summary \<times> 's manager \<times> 'w
     \<Rightarrow> unit outcome \<times> resource_summary \<times> 's manager \<times> 'w" where
  "processResourceHashes E [] t st = (Ok (), st)"
| "processResourceHashes E (rh # rhs) t st =
     (let r = getObjectRef E (rh_Resource rh);
          lastKnownHash = rh_Hash rh;
          override = (\<lambda>m. m\<lparr>resourceHashes := (resourceHashes m)(r \<mapsto> Some (bytes_of_string (rh_Hash rh)))\<rparr>)
      in case RegisterResource E r t st of
           (Panic, st1) \<Rightarrow> (Panic, st1)
         | (Err e, rs1, m1, w1) \<Rightarrow>
             (if IsNotFound e
              then processResourceHashes E rhs t (rs1, checkForConfigurationDrift E r (override m1), w1)
              else (Err e, rs1, override m1, w1))
         | (Ok currentHash, rs1, m1, w1) \<Rightarrow>
             (let m2 = override m1;
                  m3 = (if \<not> reflect_DeepEqual (GoBytes currentHash) (GoString lastKnownHash)
                        then checkForConfigurationDrift E r m2 else m2)
              in processResourceHashes E rhs t (rs1, m3, w1)))"

definition readResourceSummary ::
  "('s, 'w, 'v) ext \<Rightarrow> resource_summary \<times> 's manager \<times> 'w
     \<Rightarrow> unit outcome \<times> resource_summary \<times> 's manager \<times> 'w" where
  "readResourceSummary E = (\<lambda>(rs, m, w).
     and_then (processResourceHashes E (ResourceHashes (rs_Status rs)) HelmResource (rs, m, w)) (\<lambda>_ (rs1, m1, w1).
     and_then (processResourceHashes E (KustomizeResourceHashes (rs_Status rs1)) KustomizeResource (rs1, m1, w1))
       (\<lambda>_ (rs2, m2, w2).
         processResourceHashes E (HelmResourceHashes (rs_Status rs2)) Resource (rs2, m2, w2))))"

fun readEach ::
  "('s, 'w, 'v) ext \<Rightarrow> resource_summary list \<Rightarrow> 's manager \<times> 'w \<Rightarrow> unit outcome \<times> 's manager \<times> 'w" where
  "readEach E [] mw = (Ok (), mw)"
| "readEach E (rs # rss) mw =
     (if rs_DeletionTimestamp rs \<noteq> None then readEach E rss mw
      else (case readResourceSummary E (rs, mw) of
              (Ok _, _, mw1) \<Rightarrow> readEach E rss mw1
            | (Err e, _, mw1) \<Rightarrow> (Err e, mw1)
            | (Panic, _, mw1) \<Rightarrow> (Panic, mw1)))"

definition readResourceSummaries ::
  "('s, 'w, 'v) ext \<Rightarrow> 's manager \<times> 'w \<Rightarrow> unit outcome \<times> 's manager \<times> 'w" where
  "readResourceSummaries E = (\<lambda>(m, w).
     (case client_List E w of
        (Ok items, w1) \<Rightarrow> readEach E items (m, w1)
      | (Err e, w1) \<Rightarrow> (Err e, m, w1)
      | (Panic, w1) \<Rightarrow> (Panic, m, w1)))"

text \<open>
  The package's variables: the instance, the goroutines started for it (the evaluation loop with its
  wait group, the version to store), and the managers that were dropped. A dropped manager is still
  referenced by the informers it has started.
\<close>

record 's process =
  managerInstance :: "'s manager option"
  evaluators :: nat
  waitGroup :: int
  versionToStore :: "string option"
  dropped :: "'s manager list"

definition InitializeManager ::
  "('s, 'w, 'v) ext \<Rightarrow> string \<Rightarrow> string \<Rightarrow> string \<Rightarrow> string \<Rightarrow> u64 \<Rightarrow> bool \<Rightarrow> 's process \<times> 'w
     \<Rightarrow> unit outcome \<times> 's process \<times> 'w" where
  "InitializeManager E cNamespace cName version cType intervalInSecond send = (\<lambda>(p, w).
     (case managerInstance p of
        Some _ \<Rightarrow> (Ok (), p, w)
      | None \<Rightarrow>
          (case readResourceSummaries E (newManager E cNamespace cName cType intervalInSecond send, w) of
             (Err e, m1, w1) \<Rightarrow> (Err e, p\<lparr>managerInstance := None, dropped := m1 # dropped p\<rparr>, w1)
           | (Panic, m1, w1) \<Rightarrow> (Panic, p\<lparr>managerInstance := Some m1\<rparr>, w1)
           | (Ok _, m1, w1) \<Rightarrow>
               (let p1 = p\<lparr>managerInstance := Some m1, waitGroup := 0\<rparr>;
                    p2 = p1\<lparr>evaluators := evaluators p1 + 1\<rparr>;
                    p3 = p2\<lparr>waitGroup := waitGroup p2 + 1\<rparr>;
                    p4 = p3\<lparr>versionToStore := Some version\<rparr>
                in (Ok (), p4, w1)))))"

definition GetManager :: "'s process \<Rightarrow> 's manager outcome" where
  "GetManager p = (case managerInstance p of
     Some m \<Rightarrow> Ok m
   | None \<Rightarrow> Err (GoErr COther ''manager not initialized yet''))"

definition Reset :: "'s process \<Rightarrow> 's process" where
  "Reset p = (case managerInstance p of
     None \<Rightarrow> p | Some m \<Rightarrow> p\<lparr>managerInstance := None, dropped := m # dropped p\<rparr>)"

text \<open>
  The statements after the reading are in the order of the source: the wait group is declared, the
  evaluation goroutine is started, only then is the counter raised, and the goroutine that stores the
  version is started. What a pass that ends before the counter is raised does is part of the
  evaluation loop.
\<close>

section \<open>One step of the rebuilding\<close>

text \<open>
  The slice and the string are never equal, so what remains of a step is: register the resource,
  replace its hash, queue it.
\<close>

definition rh_ref :: "('s, 'w, 'v) ext \<Rightarrow> resource_hash \<Rightarrow> objref" where
  "rh_ref E rh = getObjectRef E (rh_Resource rh)"

definition restore_hash :: "('s, 'w, 'v) ext \<Rightarrow> resource_hash \<Rightarrow> 's manager \<Rightarrow> 's manager" where
  "restore_hash E rh m =
     m\<lparr>resourceHashes := (resourceHashes m)(rh_ref E rh \<mapsto> Some (bytes_of_string (rh_Hash rh)))\<rparr>"

lemma processResourceHashes_Cons:
  assumes "RegisterResource E (rh_ref E rh) t (rs, m, w) = (x, rs1, m1, w1)"
  shows "processResourceHashes E (rh # rhs) t (rs, m, w) =
    (case x of
       Panic \<Rightarrow> (Panic, rs1, m1, w1)
     | Err e \<Rightarrow> (if IsNotFound e
         then processResourceHashes E rhs t (rs1, checkForConfigurationDrift E (rh_ref E rh) (restore_hash E rh m1), w1)
         else (Err e, rs1, restore_hash E rh m1, w1))
     | Ok _ \<Rightarrow>
         processResourceHashes E rhs t (rs1, checkForConfigurationDrift E (rh_ref E rh) (restore_hash E rh m1), w1))"
  using assms by (cases x) (simp_all add: rh_ref_def restore_hash_def Let_def)

declare processResourceHashes.simps(2) [simp del]

lemma processResourceHashes_Ok:
  assumes "processResourceHashes E (rh # rhs) t (rs, m, w) = (Ok (), st)"
  obtains x rs1 m1 w1 where "RegisterResource E (rh_ref E rh) t (rs, m, w) = (x, rs1, m1, w1)" and "x \<noteq> Panic"
    and "processResourceHashes E rhs t (rs1, checkForConfigurationDrift E (rh_ref E rh) (restore_hash E rh m1), w1)
      = (Ok (), st)"
proof -
  obtain x rs1 m1 w1 where reg: "RegisterResource E (rh_ref E rh) t (rs, m, w) = (x, rs1, m1, w1)"
    using prod_cases4 by blast
  show thesis
    by (rule that [OF reg]; use assms processResourceHashes_Cons [OF reg, of rhs] in \<open>cases x\<close>)
      (auto split: if_splits)
qed

lemma restore_hash_fields [simp]:
  "typeMap t (restore_hash E rh m) = typeMap t m" "jobQueue (restore_hash E rh m) = jobQueue m"
  "gvkResources (restore_hash E rh m) = gvkResources m" "watchers (restore_hash E rh m) = watchers m"
  "tracked E (restore_hash E rh m) = tracked E m"
  by (simp_all add: restore_hash_def)

lemma queue_only_fields [simp]:
  "typeMap t (checkForConfigurationDrift E r m) = typeMap t m"
  "gvkResources (checkForConfigurationDrift E r m) = gvkResources m"
  "watchers (checkForConfigurationDrift E r m) = watchers m"
  "resourceHashes (checkForConfigurationDrift E r m) = resourceHashes m"
  "tracked E (checkForConfigurationDrift E r m) = tracked E m"
  "manager_inv E (checkForConfigurationDrift E r m) = manager_inv E m"
  "jobQueue (checkForConfigurationDrift E r m) = set_Insert E r (jobQueue m)"
  by (simp_all add: checkForConfigurationDrift_def)

lemma is_tracked_resourceHashes [simp]: "is_tracked (m\<lparr>resourceHashes := f\<rparr>) = is_tracked m"
  by (rule is_tracked_cong) simp

lemma restore_hash_inv:
  assumes "manager_inv E m" and "is_tracked m (rh_ref E rh)"
  shows "manager_inv E (restore_hash E rh m)"
proof (rule manager_invI)
  show "consumers_inv E (restore_hash E rh m)"
    using assms(1) consumers_inv_cong [of "restore_hash E rh m" m E] by (simp add: manager_inv_def)
  show "watchers_inv (restore_hash E rh m)"
    using assms(1) watchers_inv_cong [of "restore_hash E rh m" m] by (simp add: manager_inv_def restore_hash_def)
  show "hashes_inv E (restore_hash E rh m)"
    by (rule hashes_invI)
      (use assms(2) hashes_invD [OF manager_invD(2) [OF assms(1)]] in
        \<open>auto simp: restore_hash_def split: if_splits\<close>)
qed

section \<open>What the rebuilding establishes\<close>

context libset
begin

lemma RegisterResource_is_tracked:
  assumes "RegisterResource E r t (rs, m, w) = (x, rs1, m', w')" and "x \<noteq> Panic"
  shows "is_tracked m' r"
proof -
  obtain q where "GetObjectReference E rs = Ok (q, rs1)" using RegisterResource_no_reference [OF assms] .
  from RegisterResource_tracked [OF this assms(1)] have "(r, t, q) \<in> tracked E m'" by simp
  then show ?thesis by (auto simp: tracked_def is_tracked_def)
qed

lemma processResourceHashes_inv [inv_intro]:
  "manager_inv E m \<Longrightarrow> processResourceHashes E rhs t (rs, m, w) = (x, rs', m', w') \<Longrightarrow> manager_inv E m'"
proof (induction rhs arbitrary: rs m w)
  case (Cons rh rhs)
  obtain y rs1 m1 w1 where reg: "RegisterResource E (rh_ref E rh) t (rs, m, w) = (y, rs1, m1, w1)"
    using prod_cases4 by blast
  have inv: "manager_inv E m1" by (rule RegisterResource_inv [OF Cons.prems(1) reg])
  then have "manager_inv E (restore_hash E rh m1)" if "y \<noteq> Panic"
    using restore_hash_inv RegisterResource_is_tracked [OF reg that] by blast
  with Cons.prems inv processResourceHashes_Cons [OF reg, of rhs]
    Cons.IH [of "checkForConfigurationDrift E (rh_ref E rh) (restore_hash E rh m1)" rs1 w1]
  show ?case by (cases y) (auto split: if_splits)
qed simp

lemma processResourceHashes_tracked [map_law]:
  "GetObjectReference E rs = Ok (q, rs1) \<Longrightarrow> processResourceHashes E rhs t (rs, m, w) = (Ok (), rs', m', w') \<Longrightarrow>
    tracked E m' = tracked E m \<union> {(rh_ref E rh, t, q) | rh. rh \<in> set rhs}"
proof (induction rhs arbitrary: rs m w)
  case (Cons rh rhs)
  obtain y rs2 m1 w1 where reg: "RegisterResource E (rh_ref E rh) t (rs, m, w) = (y, rs2, m1, w1)"
    and rest: "processResourceHashes E rhs t
      (rs2, checkForConfigurationDrift E (rh_ref E rh) (restore_hash E rh m1), w1) = (Ok (), rs', m', w')"
    using Cons.prems(2) by (rule processResourceHashes_Ok)
  have "rs2 = rs1" by (rule RegisterResource_summary [OF reg Cons.prems(1)])
  then have "GetObjectReference E rs2 = Ok (q, rs1)" using GetObjectReference_idem [OF Cons.prems(1)] by simp
  from Cons.IH [OF this rest] RegisterResource_tracked [OF Cons.prems(1) reg] show ?case by auto
qed auto

lemma processResourceHashes_queue:
  "processResourceHashes E rhs t (rs, m, w) = (Ok (), rs', m', w') \<Longrightarrow>
    elems E (jobQueue m') = elems E (jobQueue m) \<union> rh_ref E ` set rhs"
proof (induction rhs arbitrary: rs m w)
  case (Cons rh rhs)
  obtain y rs2 m1 w1 where reg: "RegisterResource E (rh_ref E rh) t (rs, m, w) = (y, rs2, m1, w1)"
    and rest: "processResourceHashes E rhs t
      (rs2, checkForConfigurationDrift E (rh_ref E rh) (restore_hash E rh m1), w1) = (Ok (), rs', m', w')"
    using Cons.prems by (rule processResourceHashes_Ok)
  from Cons.IH [OF rest] RegisterResource_jobQueue [OF reg] show ?case by auto
qed simp

lemma processResourceHashes_entries [map_law]:
  assumes "processResourceHashes E rhs t (rs, m, w) = (Ok (), rs', m', w')"
  shows "tracked E m' = tracked E m \<union> {(rh_ref E rh, t, q) | rh q rs1. rh \<in> set rhs \<and> GetObjectReference E rs = Ok (q, rs1)}"
proof (cases "GetObjectReference E rs")
  case (Ok p)
  then obtain q rs1 where "GetObjectReference E rs = Ok (q, rs1)" by (cases p) auto
  with processResourceHashes_tracked [OF this assms] show ?thesis by auto
next
  case Panic
  have "rhs = []"
  proof (cases rhs)
    case (Cons rh rhs')
    with assms obtain x rs1 m1 w1 where "RegisterResource E (rh_ref E rh) t (rs, m, w) = (x, rs1, m1, w1)"
      and "x \<noteq> Panic" using processResourceHashes_Ok by metis
    with Panic show ?thesis by (simp add: RegisterResource_def)
  qed
  with assms Panic show ?thesis by simp
qed simp

text \<open>The hashes afterwards: the listed resources have the bytes of a listed text, the others what they had.\<close>

lemma processResourceHashes_hashes:
  "processResourceHashes E rhs t (rs, m, w) = (Ok (), rs', m', w') \<Longrightarrow>
    (if r \<in> rh_ref E ` set rhs
     then \<exists>rh \<in> set rhs. rh_ref E rh = r \<and> resourceHashes m' r = Some (Some (bytes_of_string (rh_Hash rh)))
     else resourceHashes m' r = resourceHashes m r)"
proof (induction rhs arbitrary: rs m w)
  case (Cons rh rhs)
  obtain y rs2 m1 w1 where reg: "RegisterResource E (rh_ref E rh) t (rs, m, w) = (y, rs2, m1, w1)"
    and rest: "processResourceHashes E rhs t
      (rs2, checkForConfigurationDrift E (rh_ref E rh) (restore_hash E rh m1), w1) = (Ok (), rs', m', w')"
    using Cons.prems by (rule processResourceHashes_Ok)
  from Cons.IH [OF rest] RegisterResource_hashes [OF reg, of r] show ?case
    by (auto simp: restore_hash_def split: if_splits)
qed simp

end

text \<open>A status as the rebuilding reads it: a list of hashes is registered under this resource type.\<close>

definition startup_type :: "rtype \<Rightarrow> rtype" where
  "startup_type t = (case t of Resource \<Rightarrow> HelmResource | KustomizeResource \<Rightarrow> KustomizeResource | HelmResource \<Rightarrow> Resource)"

lemma typed_processResourceHashes:
  "processResourceHashes E rhs t (rs, m, w) = (x, rs', m', w') \<Longrightarrow> typed E rs rs'"
proof (induction rhs arbitrary: rs m w)
  case (Cons rh rhs)
  obtain y rs1 m1 w1 where reg: "RegisterResource E (rh_ref E rh) t (rs, m, w) = (y, rs1, m1, w1)"
    using prod_cases4 by blast
  with Cons.prems processResourceHashes_Cons [OF reg, of rhs] typed_RegisterResource [OF reg]
    Cons.IH [of rs1 "checkForConfigurationDrift E (rh_ref E rh) (restore_hash E rh m1)" w1]
  show ?case by (cases y) (auto split: if_splits intro: typed_trans)
qed simp

lemma readResourceSummary_Ok:
  assumes "readResourceSummary E (rs, m, w) = (Ok (), rs', m', w')"
  obtains rs1 m1 w1 rs2 m2 w2 where
    "processResourceHashes E (statusHashes Resource (rs_Status rs)) HelmResource (rs, m, w) = (Ok (), rs1, m1, w1)"
    "processResourceHashes E (statusHashes KustomizeResource (rs_Status rs)) KustomizeResource (rs1, m1, w1) = (Ok (), rs2, m2, w2)"
    "processResourceHashes E (statusHashes HelmResource (rs_Status rs)) Resource (rs2, m2, w2) = (Ok (), rs', m', w')"
proof -
  obtain rs1 m1 w1 rs2 m2 w2 where
    *: "processResourceHashes E (ResourceHashes (rs_Status rs)) HelmResource (rs, m, w) = (Ok (), rs1, m1, w1)"
    "processResourceHashes E (KustomizeResourceHashes (rs_Status rs1)) KustomizeResource (rs1, m1, w1) = (Ok (), rs2, m2, w2)"
    "processResourceHashes E (HelmResourceHashes (rs_Status rs2)) Resource (rs2, m2, w2) = (Ok (), rs', m', w')"
    using assms by (auto simp: readResourceSummary_def)
  have "rs_Status rs1 = rs_Status rs" and "rs_Status rs2 = rs_Status rs"
    using typed_frame(1) [OF typed_processResourceHashes [OF *(1)]]
      typed_frame(1) [OF typed_processResourceHashes [OF *(2)]] by simp_all
  with * show thesis by (intro that) (simp_all add: statusHashes_def)
qed

text \<open>The entries of the tracking relation that the rebuilding makes of one ResourceSummary.\<close>

definition startup_entries ::
  "('s, 'w, 'v) ext \<Rightarrow> resource_summary \<Rightarrow> (objref \<times> rtype \<times> objref) set" where
  "startup_entries E rs = {(rh_ref E rh, startup_type t, q) | rh t q rs1.
     rh \<in> set (statusHashes t (rs_Status rs)) \<and> GetObjectReference E rs = Ok (q, rs1)}"

definition status_hashes :: "resource_summary \<Rightarrow> resource_hash set" where
  "status_hashes rs = (\<Union>t. set (statusHashes t (rs_Status rs)))"

definition live_summaries :: "resource_summary list \<Rightarrow> resource_summary set" where
  "live_summaries rss = {rs \<in> set rss. rs_DeletionTimestamp rs = None}"

lemma live_summaries_simps [simp]:
  "live_summaries [] = {}"
  "live_summaries (rs # rss) =
     (if rs_DeletionTimestamp rs = None then insert rs (live_summaries rss) else live_summaries rss)"
  by (auto simp: live_summaries_def)

lemma ex_rtype: "(\<exists>t. P t) \<longleftrightarrow> P Resource \<or> P KustomizeResource \<or> P HelmResource"
  by (metis rtype.exhaust)

lemma startup_entries_types:
  "(r, t, q) \<in> startup_entries E rs \<longleftrightarrow> (\<exists>rs1. GetObjectReference E rs = Ok (q, rs1)) \<and>
     r \<in> rh_ref E ` set (statusHashes (startup_type t) (rs_Status rs))"
  by (cases t) (auto simp: startup_entries_def ex_rtype startup_type_def)

lemma status_hashes_types:
  "status_hashes rs = set (statusHashes Resource (rs_Status rs)) \<union>
     set (statusHashes KustomizeResource (rs_Status rs)) \<union> set (statusHashes HelmResource (rs_Status rs))"
  unfolding status_hashes_def UNIV_enum enum_rtype_def by auto

context libset
begin

lemma readResourceSummary_inv [inv_intro]:
  assumes "manager_inv E m" and "readResourceSummary E (rs, m, w) = (x, rs', m', w')"
  shows "manager_inv E m'"
proof -
  obtain x1 rs1 m1 w1 where one:
    "processResourceHashes E (ResourceHashes (rs_Status rs)) HelmResource (rs, m, w) = (x1, rs1, m1, w1)"
    using prod_cases4 by blast
  obtain x2 rs2 m2 w2 where two:
    "processResourceHashes E (KustomizeResourceHashes (rs_Status rs1)) KustomizeResource (rs1, m1, w1) = (x2, rs2, m2, w2)"
    using prod_cases4 by blast
  obtain x3 rs3 m3 w3 where three:
    "processResourceHashes E (HelmResourceHashes (rs_Status rs2)) Resource (rs2, m2, w2) = (x3, rs3, m3, w3)"
    using prod_cases4 by blast
  have "m' \<in> {m1, m2, m3}"
    using assms(2) one two three by (cases x1; cases x2) (auto simp: readResourceSummary_def)
  moreover have "manager_inv E m1" by (rule processResourceHashes_inv [OF assms(1) one])
  moreover from this have "manager_inv E m2" by (rule processResourceHashes_inv [OF _ two])
  moreover from this have "manager_inv E m3" by (rule processResourceHashes_inv [OF _ three])
  ultimately show ?thesis by blast
qed

lemma readResourceSummary_tracked:
  assumes "readResourceSummary E (rs, m, w) = (Ok (), rs', m', w')"
  shows "tracked E m' = tracked E m \<union> startup_entries E rs"
proof -
  obtain rs1 m1 w1 rs2 m2 w2 where
    one: "processResourceHashes E (statusHashes Resource (rs_Status rs)) HelmResource (rs, m, w) = (Ok (), rs1, m1, w1)"
    and two: "processResourceHashes E (statusHashes KustomizeResource (rs_Status rs)) KustomizeResource (rs1, m1, w1) = (Ok (), rs2, m2, w2)"
    and three: "processResourceHashes E (statusHashes HelmResource (rs_Status rs)) Resource (rs2, m2, w2) = (Ok (), rs', m', w')"
    using assms by (rule readResourceSummary_Ok)
  have "GetObjectReference E rs1 = GetObjectReference E rs" and "GetObjectReference E rs2 = GetObjectReference E rs"
    using typed_reference [OF typed_processResourceHashes [OF one]]
      typed_reference [OF typed_processResourceHashes [OF two]] by simp_all
  then show ?thesis
    unfolding processResourceHashes_entries [OF three] processResourceHashes_entries [OF two]
      processResourceHashes_entries [OF one] set_eq_iff split_paired_All
    by (auto simp: startup_entries_types startup_type_def split: rtype.splits)
qed

lemma readResourceSummary_queue:
  assumes "readResourceSummary E (rs, m, w) = (Ok (), rs', m', w')"
  shows "elems E (jobQueue m') = elems E (jobQueue m) \<union> rh_ref E ` status_hashes rs"
  using assms
  by (elim readResourceSummary_Ok) (auto simp: processResourceHashes_queue status_hashes_types)

lemma readResourceSummary_hashes:
  assumes "readResourceSummary E (rs, m, w) = (Ok (), rs', m', w')"
  shows "if r \<in> rh_ref E ` status_hashes rs
    then \<exists>rh \<in> status_hashes rs. rh_ref E rh = r \<and> resourceHashes m' r = Some (Some (bytes_of_string (rh_Hash rh)))
    else resourceHashes m' r = resourceHashes m r"
  using assms
proof (rule readResourceSummary_Ok)
  fix rs1 m1 w1 rs2 m2 w2
  assume "processResourceHashes E (statusHashes Resource (rs_Status rs)) HelmResource (rs, m, w) = (Ok (), rs1, m1, w1)"
    and "processResourceHashes E (statusHashes KustomizeResource (rs_Status rs)) KustomizeResource (rs1, m1, w1) = (Ok (), rs2, m2, w2)"
    and "processResourceHashes E (statusHashes HelmResource (rs_Status rs)) Resource (rs2, m2, w2) = (Ok (), rs', m', w')"
  from this [THEN processResourceHashes_hashes, of r] show ?thesis
    by (simp add: status_hashes_types image_Un split: if_splits) blast+
qed

text \<open>Reading all of them, those being deleted left out.\<close>

lemma readEach_inv [inv_intro]:
  "manager_inv E m \<Longrightarrow> readEach E rss (m, w) = (x, m', w') \<Longrightarrow> manager_inv E m'"
proof (induction rss arbitrary: m w)
  case (Cons rs rss)
  obtain y rs1 m1 w1 where y: "readResourceSummary E (rs, m, w) = (y, rs1, m1, w1)" using prod_cases4 by blast
  with Cons readResourceSummary_inv [OF Cons.prems(1) y] show ?case
    by (cases y) (auto split: if_splits)
qed simp

lemma readEach_Ok:
  assumes "readEach E (rs # rss) (m, w) = (Ok (), m', w')" and "rs_DeletionTimestamp rs = None"
  obtains rs1 m1 w1 where "readResourceSummary E (rs, m, w) = (Ok (), rs1, m1, w1)"
    and "readEach E rss (m1, w1) = (Ok (), m', w')"
  using assms by (auto split: outcome.splits prod.splits)

lemma readEach_tracked:
  "readEach E rss (m, w) = (Ok (), m', w') \<Longrightarrow>
    tracked E m' = tracked E m \<union> (\<Union>rs \<in> live_summaries rss. startup_entries E rs)"
proof (induction rss arbitrary: m w)
  case (Cons rs rss)
  show ?case
  proof (cases "rs_DeletionTimestamp rs = None")
    case True
    with Cons.prems show ?thesis
      by (rule readEach_Ok) (use Cons.IH readResourceSummary_tracked True in auto)
  qed (use Cons in auto)
qed simp

lemma readEach_queue:
  "readEach E rss (m, w) = (Ok (), m', w') \<Longrightarrow>
    elems E (jobQueue m') = elems E (jobQueue m) \<union> (\<Union>rs \<in> live_summaries rss. rh_ref E ` status_hashes rs)"
proof (induction rss arbitrary: m w)
  case (Cons rs rss)
  show ?case
  proof (cases "rs_DeletionTimestamp rs = None")
    case True
    with Cons.prems show ?thesis
      by (rule readEach_Ok) (use Cons.IH readResourceSummary_queue True in auto)
  qed (use Cons in auto)
qed simp

text \<open>A hash after the rebuilding is the one before, or the bytes of a text in some status.\<close>

lemma readEach_hashes:
  "readEach E rss (m, w) = (Ok (), m', w') \<Longrightarrow>
    (resourceHashes m' r = resourceHashes m r \<and> (\<forall>rs \<in> live_summaries rss. r \<notin> rh_ref E ` status_hashes rs)) \<or>
    (\<exists>rs \<in> live_summaries rss. \<exists>rh \<in> status_hashes rs. rh_ref E rh = r \<and>
       resourceHashes m' r = Some (Some (bytes_of_string (rh_Hash rh))))"
proof (induction rss arbitrary: m w)
  case (Cons rs rss)
  show ?case
  proof (cases "rs_DeletionTimestamp rs = None")
    case True
    obtain rs1 m1 w1 where one: "readResourceSummary E (rs, m, w) = (Ok (), rs1, m1, w1)"
      and rest: "readEach E rss (m1, w1) = (Ok (), m', w')"
      using readEach_Ok [OF Cons.prems True] .
    note H = readResourceSummary_hashes [OF one, of r]
    from Cons.IH [OF rest] show ?thesis
    proof (elim disjE conjE)
      assume "resourceHashes m' r = resourceHashes m1 r" and "\<forall>rs \<in> live_summaries rss. r \<notin> rh_ref E ` status_hashes rs"
      with H True show ?thesis by (auto split: if_splits)
    next
      assume "\<exists>rs \<in> live_summaries rss. \<exists>rh \<in> status_hashes rs. rh_ref E rh = r \<and>
        resourceHashes m' r = Some (Some (bytes_of_string (rh_Hash rh)))"
      with True show ?thesis by simp
    qed
  qed (use Cons in auto)
qed simp

end

section \<open>Registering a resource that has a hash\<close>

text \<open>
  Any number of registrations of one resource, one after the other, for any ResourceSummaries,
  resource types and states of the cluster, whatever they return.
\<close>

inductive registered_again :: "('s, 'w, 'v) ext \<Rightarrow> objref \<Rightarrow> 's manager \<Rightarrow> 's manager \<Rightarrow> bool" for E r m where
  none: "registered_again E r m m"
| again: "registered_again E r m m1 \<Longrightarrow> RegisterResource E r t (rs, m1, w) = (x, rs1, m2, w1) \<Longrightarrow>
    registered_again E r m m2"

lemma RegisterResource_known:
  assumes "resourceHashes m r = Some h" and "RegisterResource E r t (rs, m, w) = (x, rs1, m1, w1)"
  shows "resourceHashes m1 = resourceHashes m" and "watchers m1 = watchers m" and "informers m1 = informers m"
  using assms by (cases "GetObjectReference E rs"; auto simp: RegisterResource_def)+

lemma registered_again_known:
  assumes "registered_again E r m m'" and "resourceHashes m r = Some h"
  shows "resourceHashes m' = resourceHashes m \<and> watchers m' = watchers m \<and> informers m' = informers m"
  using assms
proof (induction rule: registered_again.induct)
  case (again m1 t rs w x rs1 m2 w1)
  then show ?case using RegisterResource_known [of m1 r h E t rs w x rs1 m2 w1] by simp
qed simp

section \<open>Bytes and texts\<close>

text \<open>
  The reconciler writes a digest into a status as hexadecimal digits, twice as long as the digest; an
  evaluation writes the bytes themselves. Only the second comes back as the digest.
\<close>

lemma hex_text_not_digest:
  assumes "length d = 32" and "length d' = 32"
  shows "Some (bytes_of_string (sprintf_x (Some d))) \<noteq> Some d'"
proof
  assume "Some (bytes_of_string (sprintf_x (Some d))) = Some d'"
  then have "length (bytes_of_string (sprintf_x (Some d))) = length d'" by simp
  with assms show False by simp
qed

lemma bytes_of_string_of_bytes [simp]: "bytes_of_string (string_of_bytes (Some l)) = l"
proof -
  have "word_of_nat (of_char (char_of (unat b) :: char)) = b" for b :: u8
  proof -
    have "unat b < 2 ^ 8" using unsigned_less [of b] by simp
    then show ?thesis by (simp add: of_char_of)
  qed
  then show ?thesis by (simp add: string_of_bytes_def bytes_of_string_def o_def)
qed

lemma observed_length: "observed E r m w (Some d) w' \<Longrightarrow> length d = 32"
  by (auto elim!: observed.cases dest: unstructuredHash_length)

section \<open>A restart on the reference cluster\<close>

text \<open>The status the reconciler has written for the example's Deployment.\<close>

definition ex_written :: resource_summary where
  "ex_written = ex_summary\<lparr>rs_Status := ex_status\<lparr>ResourceHashes :=
     [\<lparr>rh_Resource = ex_deployment, rh_Hash = sprintf_x (Some ex_hash)\<rparr>]\<rparr>\<rparr>"

definition ex_restart_cluster :: ref_cluster where
  "ex_restart_cluster = ex_cluster\<lparr>c_summaries := [((''projectsveltos'', ''rs1''), ex_written)]\<rparr>"

definition ex_restarted :: "objref list manager" where
  "ex_restarted = ex_registered\<lparr>resources := Map.empty, helmResources := [ex_deployment_ref \<mapsto> [ex_summary_ref]],
     resourceHashes := [ex_deployment_ref \<mapsto> Some (bytes_of_string (sprintf_x (Some ex_hash)))],
     jobQueue := [ex_deployment_ref]\<rparr>"

lemma ex_restart:
  "readResourceSummaries ref_ext (ex_manager, ex_restart_cluster) = (Ok (), ex_restarted, ex_restart_cluster)"
  by (simp add: readResourceSummaries_def readResourceSummary_def processResourceHashes.simps(2)
      ex_written_def ex_restart_cluster_def ex_restarted_def ex_registered_def ex_manager_def
      checkForConfigurationDrift_def run)

section \<open>Properties\<close>

text \<open>
  (C14) No drift is missed over a restart. When the rebuilding succeeds, every resource with a hash in
  the status of a ResourceSummary that is not being deleted is tracked for that ResourceSummary, has
  a hash, and is queued for evaluation; nothing else is; the invariant of the manager holds.
\<close>

theorem restart_restores:
  assumes "libset E" and "client_List E w = (Ok items, w1)"
    and "readResourceSummaries E (newManager E cns cn ct iv su, w) = (Ok (), m, w')"
    and "listed = (\<Union>rs \<in> live_summaries items. rh_ref E ` status_hashes rs)"
  shows "manager_inv E m \<and> elems E (jobQueue m) = listed \<and> dom (resourceHashes m) = listed \<and>
    {(r, q). \<exists>t. (r, t, q) \<in> tracked E m} = {(r, q). \<exists>rs \<in> live_summaries items. \<exists>rs1.
       GetObjectReference E rs = Ok (q, rs1) \<and> r \<in> rh_ref E ` status_hashes rs}"
proof -
  have each: "readEach E items (newManager E cns cn ct iv su, w1) = (Ok (), m, w')"
    using assms(2,3) by (simp add: readResourceSummaries_def)
  have none: "resourceHashes (newManager E cns cn ct iv su) r = None"
    and queue: "jobQueue (newManager E cns cn ct iv su) = set_new E" for r by (simp_all add: newManager_def)
  have "manager_inv E m" by (rule libset.readEach_inv [OF assms(1) newManager_inv each])
  moreover have "elems E (jobQueue m) = listed"
    using libset.readEach_queue [OF assms(1) each] libset.elems_new [OF assms(1)] by (simp add: queue assms(4))
  moreover have "dom (resourceHashes m) = listed"
    using libset.readEach_hashes [OF assms(1) each] by (force simp: none assms(4))
  moreover have "{(r, q). \<exists>t. (r, t, q) \<in> tracked E m} = {(r, q). \<exists>rs \<in> live_summaries items. \<exists>rs1.
       GetObjectReference E rs = Ok (q, rs1) \<and> r \<in> rh_ref E ` status_hashes rs}"
    using libset.readEach_tracked [OF assms(1) each]
    by (auto simp: startup_entries_types ex_rtype status_hashes_types image_Un startup_type_def)
  ultimately show ?thesis by blast
qed

theorem restart_restores_witness:
  "elems ref_ext (jobQueue ex_restarted) = {ex_deployment_ref} \<and> manager_inv ref_ext ex_restarted"
proof -
  have "client_List ref_ext ex_restart_cluster = (Ok [ex_written], ex_restart_cluster)"
    by (simp add: ref_ext_sel ex_restart_cluster_def)
  from restart_restores [OF ref_set.libset_axioms this ex_restart [unfolded ex_manager_def] refl]
  show ?thesis
    by (simp add: status_hashes_types statusHashes_def ex_written_def rh_ref_def run)
qed

text \<open>
  (C32) The rebuilding swaps two resource types. What it tracks as deployed directly are the resources
  of the charts' hashes, and the other way round.
\<close>

theorem restart_swaps_types:
  assumes "libset E" and "client_List E w = (Ok items, w1)"
    and "readResourceSummaries E (newManager E cns cn ct iv su, w) = (Ok (), m, w')"
    and "owner = (\<lambda>rs q. rs \<in> live_summaries items \<and> (\<exists>rs1. GetObjectReference E rs = Ok (q, rs1)))"
  shows "((r, HelmResource, q) \<in> tracked E m \<longleftrightarrow> (\<exists>rs. owner rs q \<and> r \<in> rh_ref E ` set (ResourceHashes (rs_Status rs)))) \<and>
    ((r, Resource, q) \<in> tracked E m \<longleftrightarrow> (\<exists>rs. owner rs q \<and> r \<in> rh_ref E ` set (HelmResourceHashes (rs_Status rs))))"
proof -
  have each: "readEach E items (newManager E cns cn ct iv su, w1) = (Ok (), m, w')"
    using assms(2,3) by (simp add: readResourceSummaries_def)
  show ?thesis using libset.readEach_tracked [OF assms(1) each]
    by (auto simp: startup_entries_types startup_type_def statusHashes_def assms(4))
qed

theorem restart_swaps_types_witness:
  "set (HelmResourceHashes (rs_Status ex_written)) = {} \<and>
   (ex_deployment_ref, HelmResource, ex_summary_ref) \<in> tracked ref_ext ex_restarted"
proof -
  have items: "client_List ref_ext ex_restart_cluster = (Ok [ex_written], ex_restart_cluster)"
    by (simp add: ref_ext_sel ex_restart_cluster_def)
  have "\<exists>rs1. GetObjectReference ref_ext ex_written = Ok (ex_summary_ref, rs1)"
    by (simp add: ex_written_def run)
  then have "(\<exists>rs. (rs \<in> live_summaries [ex_written] \<and> (\<exists>rs1. GetObjectReference ref_ext rs = Ok (ex_summary_ref, rs1))) \<and>
      ex_deployment_ref \<in> rh_ref ref_ext ` set (ResourceHashes (rs_Status rs)))"
    by (simp add: ex_written_def rh_ref_def run)
  with restart_swaps_types [OF ref_set.libset_axioms items ex_restart [unfolded ex_manager_def] refl]
  show ?thesis by (auto simp: ex_written_def ex_status_def)
qed

text \<open>
  (C33) A restart reports drift where there is none. With hashes as the reconciler writes them, the text
  of a digest and not the digest is restored, so the first evaluation of every resource that exists
  finds a difference and asks for reconciliation, whatever the resource's state.
\<close>

theorem restart_reports_all:
  assumes "libset E" and "client_List E w = (Ok items, w1)"
    and "readResourceSummaries E (newManager E cns cn ct iv su, w) = (Ok (), m, w')"
    and "\<forall>rs \<in> live_summaries items. \<forall>rh \<in> status_hashes rs. \<exists>d. length d = 32 \<and> rh_Hash rh = sprintf_x (Some d)"
    and "rs \<in> live_summaries items" and "rh \<in> status_hashes rs"
    and "observed E (rh_ref E rh) m w2 (Some d) w3"
  shows "rh_ref E rh \<in> elems E (jobQueue m) \<and>
    evaluateResource E (rh_ref E rh) (m, w2) = report_drift E (rh_ref E rh) (Some d) (m, w3)"
proof -
  have each: "readEach E items (newManager E cns cn ct iv su, w1) = (Ok (), m, w')"
    using assms(2,3) by (simp add: readResourceSummaries_def)
  obtain d0 where "length d0 = 32"
    and hash: "resourceHashes m (rh_ref E rh) = Some (Some (bytes_of_string (sprintf_x (Some d0))))"
    using libset.readEach_hashes [OF assms(1) each, of "rh_ref E rh"] assms(4-6) by fastforce
  have "Some (bytes_of_string (sprintf_x (Some d0))) \<noteq> Some d"
    by (rule hex_text_not_digest) (use \<open>length d0 = 32\<close> observed_length [OF assms(7)] in simp_all)
  from observed_drift [OF assms(7) hash this] libset.readEach_queue [OF assms(1) each] assms(5,6)
  show ?thesis by auto
qed

theorem restart_reports_all_witness:
  "evaluateResource ref_ext ex_deployment_ref (ex_restarted, ex_restart_cluster) =
     report_drift ref_ext ex_deployment_ref (Some ex_hash) (ex_restarted, ex_restart_cluster)"
proof -
  have items: "client_List ref_ext ex_restart_cluster = (Ok [ex_written], ex_restart_cluster)"
    by (simp add: ref_ext_sel ex_restart_cluster_def)
  let ?rh = "\<lparr>rh_Resource = ex_deployment, rh_Hash = sprintf_x (Some ex_hash)\<rparr>"
  have live: "rs_DeletionTimestamp ex_written = None" by (simp add: ex_written_def ex_summary_def)
  have hashes: "status_hashes ex_written = {?rh}"
    by (simp add: status_hashes_types statusHashes_def ex_written_def ex_status_def)
  have ref: "rh_ref ref_ext ?rh = ex_deployment_ref" by (simp add: rh_ref_def run)
  have "observed ref_ext ex_deployment_ref ex_restarted ex_restart_cluster (Some ex_hash) ex_restart_cluster"
    by (rule observed.present [where ps = "[]" and u = ex_deployment_obj and ?w1.0 = ex_restart_cluster])
      (simp_all add: ex_restarted_def ex_registered_def ex_manager_def ex_restart_cluster_def ex_written_def
        ex_hash_def run)
  then have seen: "observed ref_ext (rh_ref ref_ext ?rh) ex_restarted ex_restart_cluster (Some ex_hash) ex_restart_cluster"
    by (simp add: ref)
  have "\<forall>rs \<in> live_summaries [ex_written]. \<forall>rh \<in> status_hashes rs. \<exists>d. length d = 32 \<and> rh_Hash rh = sprintf_x (Some d)"
    using ex_hash_length by (auto simp: live hashes)
  from restart_reports_all [OF ref_set.libset_axioms items ex_restart [unfolded ex_manager_def] this _ _ seen, of ex_written]
  show ?thesis by (simp add: live hashes ref)
qed

text \<open>
  (C34) A resource that is missing while the maps are rebuilt has no watcher, also when it exists
  again. Suppose its GVK has no watcher before its status entry is processed and the object is not
  found then. The entry is processed without error and the resource has a hash and is queued, and after
  any number of later registrations of it a further one still returns that hash and no error, while
  its GVK has no watcher and no informer runs for it. (A registration of another resource of the GVK
  is what can still start one.)
\<close>

theorem missing_at_restart_never_watched:
  assumes "libset E" and "manager_inv E m" and "resourceHashes m (rh_ref E rh) = None"
    and "watchers m (ref_GroupVersionKind E (rh_ref E rh)) = None"
    and "getUnstructured E (rh_ref E rh) w = (Err e, w1)" and "IsNotFound e"
    and "GetObjectReference E rs = Ok (q0, rs0)"
    and "registered_again E (rh_ref E rh) (fst (snd (snd (processResourceHashes E [rh] t (rs, m, w))))) m2"
    and "GetObjectReference E rs2 = Ok (q, rs3)"
  shows "\<exists>m1 m3. processResourceHashes E [rh] t (rs, m, w) = (Ok (), rs0, m1, w1) \<and>
    rh_ref E rh \<in> elems E (jobQueue m1) \<and>
    RegisterResource E (rh_ref E rh) t2 (rs2, m2, w3) = (Ok (Some (bytes_of_string (rh_Hash rh))), rs3, m3, w3) \<and>
    watchers m3 (ref_GroupVersionKind E (rh_ref E rh)) = None \<and>
    (\<forall>i. informers m3 i \<noteq> Some (ref_GroupVersionKind E (rh_ref E rh)))"
proof -
  let ?r = "rh_ref E rh"
  let ?g = "ref_GroupVersionKind E ?r"
  let ?m1 = "checkForConfigurationDrift E ?r (restore_hash E rh (trackResource E ?r t q0 m))"
  have "RegisterResource E ?r t (rs, m, w) = (Err e, rs0, trackResource E ?r t q0 m, w1)"
    using assms(3,5,7) by (simp add: RegisterResource_def)
  then have rebuilt: "processResourceHashes E [rh] t (rs, m, w) = (Ok (), rs0, ?m1, w1)"
    using assms(6) by (simp add: processResourceHashes_Cons)
  have hash: "resourceHashes ?m1 ?r = Some (Some (bytes_of_string (rh_Hash rh)))"
    by (simp add: restore_hash_def)
  have same: "watchers ?m1 = watchers m" "informers ?m1 = informers m"
    by (simp_all add: restore_hash_def checkForConfigurationDrift_def)
  have later: "resourceHashes m2 ?r = Some (Some (bytes_of_string (rh_Hash rh)))" "watchers m2 = watchers m"
    "informers m2 = informers m"
    using registered_again_known [OF _ hash, of E m2] assms(8) hash by (simp_all add: rebuilt same)
  have "informers m i \<noteq> Some ?g" for i
    using watchers_invD(2) [OF manager_invD(3) [OF assms(2)], of ?g i] assms(4) by simp
  then have "watchers (trackResource E ?r t2 q m2) ?g = None \<and> (\<forall>i. informers (trackResource E ?r t2 q m2) i \<noteq> Some ?g)"
    using assms(4) by (simp add: later)
  moreover have "RegisterResource E ?r t2 (rs2, m2, w3) =
      (Ok (Some (bytes_of_string (rh_Hash rh))), rs3, trackResource E ?r t2 q m2, w3)"
    using assms(9) later(1) by (simp add: RegisterResource_def)
  moreover have "?r \<in> elems E (jobQueue ?m1)" using libset.elems_Insert [OF assms(1)] by simp
  ultimately show ?thesis using rebuilt by blast
qed

text \<open>The example's ConfigMap is missing at the restart; created afterwards, it is registered again.\<close>

definition ex_configmap_cluster :: ref_cluster where
  "ex_configmap_cluster = ex_cluster\<lparr>c_objects := ((ref_GroupVersionKind ref_ext (getObjectRef ref_ext ex_configmap), res_Namespace ex_configmap, res_Name ex_configmap),
     ex_deployment_obj\<lparr>u_Name := res_Name ex_configmap\<rparr>) # c_objects ex_cluster\<rparr>"

theorem missing_at_restart_never_watched_witness:
  "\<exists>m1 m3. processResourceHashes ref_ext [\<lparr>rh_Resource = ex_configmap, rh_Hash = ''ab''\<rparr>] Resource
      (ex_summary, ex_manager, ex_cluster) = (Ok (), ex_summary, m1, ex_cluster) \<and>
    RegisterResource ref_ext (getObjectRef ref_ext ex_configmap) Resource (ex_summary, m1, ex_configmap_cluster) =
      (Ok (Some (bytes_of_string ''ab'')), ex_summary, m3, ex_configmap_cluster) \<and>
    is_ok (fst (getUnstructured ref_ext (getObjectRef ref_ext ex_configmap) ex_configmap_cluster)) \<and>
    watchers m3 (ref_GroupVersionKind ref_ext (getObjectRef ref_ext ex_configmap)) = None"
proof -
  let ?rh = "\<lparr>rh_Resource = ex_configmap, rh_Hash = ''ab''\<rparr>"
  have get: "getUnstructured ref_ext (rh_ref ref_ext ?rh) ex_cluster = (Err not_found, ex_cluster)"
    by (simp add: rh_ref_def run)
  have fresh: "resourceHashes ex_manager (rh_ref ref_ext ?rh) = None"
    "watchers ex_manager (ref_GroupVersionKind ref_ext (rh_ref ref_ext ?rh)) = None"
    by (simp_all add: ex_manager_def newManager_def)
  have there: "is_ok (fst (getUnstructured ref_ext (getObjectRef ref_ext ex_configmap) ex_configmap_cluster))"
    by (simp add: ex_configmap_cluster_def run)
  have missing: "IsNotFound not_found" by (simp add: IsNotFound_def not_found_def)
  from missing_at_restart_never_watched [OF ref_set.libset_axioms ex_manager_inv fresh get missing ex_reference
      registered_again.none ex_reference, of Resource Resource ex_configmap_cluster]
  show ?thesis using there by (auto simp: rh_ref_def)
qed

text \<open>
  (C18) The manager is created once. If reading the ResourceSummaries succeeds, the instance exists with
  its invariant and one evaluation goroutine, whose wait group counts one, and a second call changes
  nothing; if it fails there is no instance and no evaluation goroutine, but the informers the
  failed attempt had started are still there.
\<close>

theorem initialize_once:
  assumes "libset E" and "managerInstance p = None"
    and "InitializeManager E cns cn version ct iv su (p, w) = (x, p', w')"
  shows "case x of
      Ok _ \<Rightarrow> (\<exists>m. GetManager p' = Ok m \<and> manager_inv E m) \<and> evaluators p' = evaluators p + 1 \<and>
        waitGroup p' = 1 \<and> InitializeManager E cns2 cn2 version2 ct2 iv2 su2 (p', w2) = (Ok (), p', w2)
    | Err e \<Rightarrow> is_err (GetManager p') \<and> evaluators p' = evaluators p \<and>
        (\<exists>m. dropped p' = m # dropped p \<and> readResourceSummaries E (newManager E cns cn ct iv su, w) = (Err e, m, w') \<and>
          watchers_inv m)
    | Panic \<Rightarrow> evaluators p' = evaluators p"
proof -
  obtain y m1 w1 where read: "readResourceSummaries E (newManager E cns cn ct iv su, w) = (y, m1, w1)"
    using prod_cases3 by blast
  have "manager_inv E m1"
  proof (cases "client_List E w")
    case (Pair z w2)
    with read show ?thesis
      by (cases z) (auto simp: readResourceSummaries_def newManager_inv intro: libset.readEach_inv [OF assms(1) newManager_inv])
  qed
  with read assms(2,3) show ?thesis
    by (cases y) (auto simp: InitializeManager_def GetManager_def manager_inv_def)
qed

definition ex_process :: "objref list process" where
  "ex_process = \<lparr>managerInstance = None, evaluators = 0, waitGroup = 0, versionToStore = None, dropped = []\<rparr>"

theorem initialize_once_witness:
  "\<exists>p' m. InitializeManager ref_ext ''clusters'' ''c1'' ''v1'' ''Capi'' 5 False (ex_process, ex_restart_cluster) =
      (Ok (), p', ex_restart_cluster) \<and> GetManager p' = Ok m \<and> manager_inv ref_ext m"
proof -
  have none: "managerInstance ex_process = None" by (simp add: ex_process_def)
  have "\<exists>p'. InitializeManager ref_ext ''clusters'' ''c1'' ''v1'' ''Capi'' 5 False (ex_process, ex_restart_cluster) =
      (Ok (), p', ex_restart_cluster)"
    using ex_restart by (simp add: InitializeManager_def none ex_manager_def)
  then obtain p' where run: "InitializeManager ref_ext ''clusters'' ''c1'' ''v1'' ''Capi'' 5 False
      (ex_process, ex_restart_cluster) = (Ok (), p', ex_restart_cluster)" by blast
  from initialize_once [OF ref_set.libset_axioms none run, of undefined] run show ?thesis by auto
qed

end
