(* ===== verification/Scope.thy ===== *)
theory Scope
  imports Startup
begin

text \<open>
  The scope of one reconciliation (\<open>pkg/scope/resourcesummary.go\<close>): it remembers the ResourceSummary as it
  was fetched and writes what has changed when it is closed. The ResourceSummary itself is shared with
  the reconciler and is passed as state.
\<close>

section \<open>Definitions\<close>

text \<open>The client and the ResourceSummary may be nil pointers.\<close>

record scope_params =
  params_Client :: "unit option"
  params_ResourceSummary :: "resource_summary option"
  params_ControllerName :: string

text \<open>The patch helper by the copy of the object it was created with.\<close>

record rs_scope =
  patchHelper :: resource_summary
  scope_ResourceSummary :: resource_summary
  controllerName :: string

definition NewResourceSummaryScope ::
  "('s, 'w, 'v) ext \<Rightarrow> scope_params \<Rightarrow> 'w \<Rightarrow> rs_scope outcome \<times> 'w" where
  "NewResourceSummaryScope E params w =
     (if params_Client params = None
      then (Err (GoErr COther ''client is required when creating a ResourceSummaryScope''), w)
      else (case params_ResourceSummary params of
          None \<Rightarrow> (Err (GoErr COther ''failed to generate new scope from nil ResourceSummary''), w)
        | Some rs \<Rightarrow>
            (case patch_NewHelper E rs w of
               (Err e, w1) \<Rightarrow> (Err (Wrapf e ''failed to init patch helper''), w1)
             | (Panic, w1) \<Rightarrow> (Panic, w1)
             | (Ok _, w1) \<Rightarrow> (Ok \<lparr>patchHelper = rs, scope_ResourceSummary = rs,
                  controllerName = params_ControllerName params\<rparr>, w1))))"

definition PatchObject ::
  "('s, 'w, 'v) ext \<Rightarrow> rs_scope \<Rightarrow> 'w \<Rightarrow> (unit outcome \<times> rs_scope) \<times> 'w" where
  "PatchObject E s w = (case patch_Patch E (patchHelper s) (scope_ResourceSummary s) w of
     ((x, rs'), w1) \<Rightarrow> ((x, s\<lparr>scope_ResourceSummary := rs'\<rparr>), w1))"

definition scope_Close ::
  "('s, 'w, 'v) ext \<Rightarrow> rs_scope \<Rightarrow> 'w \<Rightarrow> (unit outcome \<times> rs_scope) \<times> 'w" where
  "scope_Close E s w = PatchObject E s w"

definition scope_Name :: "rs_scope \<Rightarrow> string" where
  "scope_Name s = rs_Name (scope_ResourceSummary s)"

end
