(* ===== verification/Reconciler.thy ===== *)
theory Reconciler
  imports Scope
begin

text \<open>
  The reconciler of ResourceSummaries (\<open>controllers/resourcesummary_controller.go\<close>): from the spec of a
  ResourceSummary to the resources it references, the registration of these with the manager, the
  status that records their hashes, and the maps from which resources no longer referenced are found.
  The ResourceSummary is shared by reference, so it is part of the state; the manager is reached
  through the package's instance.
\<close>

section \<open>State\<close>

datatype mode = SendUpdates | DoNotSendUpdates

record 's reconciler =
  RunMode :: mode
  rec_ClusterNamespace :: string
  rec_ClusterName :: string
  rec_ClusterType :: string
  ResourceSummaryMap :: "objref \<rightharpoonup> 's"
  HelmResourceSummaryMap :: "objref \<rightharpoonup> 's"
  KustomizeResourceSummaryMap :: "objref \<rightharpoonup> 's"
  mapper :: bool

text \<open>The state of a reconciliation: the ResourceSummary, the reconciler, the package's variables, the cluster.\<close>

type_synonym ('s, 'w) rstate = "resource_summary \<times> 's reconciler \<times> 's process \<times> 'w"

section \<open>The resources of a ResourceSummary\<close>

definition getRESTMapper ::
  "('s, 'w, 'v) ext \<Rightarrow> 's reconciler \<times> 'w \<Rightarrow> unit outcome \<times> 's reconciler \<times> 'w" where
  "getRESTMapper E = (\<lambda>(R, w).
     (if mapper R then (Ok (), R, w)
      else (case NewDiscoveryClientForConfig E w of
              (Err e, w1) \<Rightarrow> (Err e, R, w1)
            | (Panic, w1) \<Rightarrow> (Panic, R, w1)
            | (Ok _, w1) \<Rightarrow> (Ok (), R\<lparr>mapper := True\<rparr>, w1))))"

fun setNamespaces ::
  "('s, 'w, 'v) ext \<Rightarrow> string \<Rightarrow> resource list \<Rightarrow> 's reconciler \<times> 'w \<Rightarrow> resource list outcome \<times> 's reconciler \<times> 'w" where
  "setNamespaces E ns [] st = (Ok [], st)"
| "setNamespaces E ns (x # xs) st =
     (if res_Namespace x \<noteq> []
      then and_then (setNamespaces E ns xs st) (\<lambda>ys st1. (Ok (x # ys), st1))
      else (let gvk = \<lparr>gvk_Group = res_Group x, gvk_Version = res_Version x, gvk_Kind = res_Kind x\<rparr>
        in and_then (getRESTMapper E st) (\<lambda>_ (R1, w1).
             (case deferred_RESTMapping E gvk w1 of
                (Err e, w2) \<Rightarrow> (Err e, R1, w2)
              | (Panic, w2) \<Rightarrow> (Panic, R1, w2)
              | (Ok mapping, w2) \<Rightarrow>
                  (let x' = (if mapping_Namespaced mapping then x\<lparr>res_Namespace := ns\<rparr> else x)
                   in and_then (setNamespaces E ns xs (R1, w2)) (\<lambda>ys st1. (Ok (x' # ys), st1)))))))"

definition getChartResource ::
  "('s, 'w, 'v) ext \<Rightarrow> helm_resources \<Rightarrow> 's reconciler \<times> 'w \<Rightarrow> resource list outcome \<times> 's reconciler \<times> 'w" where
  "getChartResource E helmResource st = setNamespaces E (hr_ReleaseNamespace helmResource) (hr_Resources helmResource) st"

definition getKustomizeResources :: "resource_summary \<Rightarrow> resource list" where
  "getKustomizeResources rs = spec_KustomizeResources (rs_Spec rs)"

fun getHelmResources_loop ::
  "('s, 'w, 'v) ext \<Rightarrow> helm_resources list \<Rightarrow> resource list \<Rightarrow> 's reconciler \<times> 'w
     \<Rightarrow> resource list outcome \<times> 's reconciler \<times> 'w" where
  "getHelmResources_loop E [] found st = (Ok found, st)"
| "getHelmResources_loop E (c # cs) found st =
     and_then (getChartResource E c st) (\<lambda>chartResources st1. getHelmResources_loop E cs (found @ chartResources) st1)"

definition getHelmResources ::
  "('s, 'w, 'v) ext \<Rightarrow> resource_summary \<Rightarrow> 's reconciler \<times> 'w \<Rightarrow> resource list outcome \<times> 's reconciler \<times> 'w" where
  "getHelmResources E rs st = getHelmResources_loop E (spec_ChartResources (rs_Spec rs)) [] st"

definition getResources :: "resource_summary \<Rightarrow> resource list" where
  "getResources rs = spec_Resources (rs_Spec rs)"

definition reconciler_getObjectRef :: "('s, 'w, 'v) ext \<Rightarrow> resource \<Rightarrow> objref" where
  "reconciler_getObjectRef E x =
     (let gvk = \<lparr>gvk_Group = res_Group x, gvk_Version = res_Version x, gvk_Kind = res_Kind x\<rparr>;
          apiVersion = fst (ToAPIVersionAndKind E gvk)
      in \<lparr>ref_Namespace = res_Namespace x, ref_Name = res_Name x, ref_Kind = res_Kind x,
          ref_APIVersion = apiVersion\<rparr>)"

section \<open>The reconciler's maps\<close>

definition summaryMap :: "rtype \<Rightarrow> 's reconciler \<Rightarrow> objref \<rightharpoonup> 's" where
  "summaryMap t R = (case t of
     Resource \<Rightarrow> ResourceSummaryMap R
   | KustomizeResource \<Rightarrow> KustomizeResourceSummaryMap R
   | HelmResource \<Rightarrow> HelmResourceSummaryMap R)"

definition set_summaryMap :: "rtype \<Rightarrow> (objref \<rightharpoonup> 's) \<Rightarrow> 's reconciler \<Rightarrow> 's reconciler" where
  "set_summaryMap t f R = (case t of
     Resource \<Rightarrow> R\<lparr>ResourceSummaryMap := f\<rparr>
   | KustomizeResource \<Rightarrow> R\<lparr>KustomizeResourceSummaryMap := f\<rparr>
   | HelmResource \<Rightarrow> R\<lparr>HelmResourceSummaryMap := f\<rparr>)"

definition removeMapEntry ::
  "('s, 'w, 'v) ext \<Rightarrow> rtype \<Rightarrow> resource_summary \<times> 's reconciler \<Rightarrow> unit outcome \<times> resource_summary \<times> 's reconciler" where
  "removeMapEntry E t = (\<lambda>(rs, R).
     and_then_pure (GetObjectReference E rs) (rs, R) (\<lambda>(q, rs1).
       (Ok (), rs1, set_summaryMap t ((summaryMap t R)(q := None)) R)))"

definition getMapValue ::
  "('s, 'w, 'v) ext \<Rightarrow> rtype \<Rightarrow> resource_summary \<times> 's reconciler
     \<Rightarrow> 's option outcome \<times> resource_summary \<times> 's reconciler" where
  "getMapValue E t = (\<lambda>(rs, R).
     and_then_pure (GetObjectReference E rs) (rs, R) (\<lambda>(q, rs1). (Ok (summaryMap t R q), rs1, R)))"

definition setMapValue ::
  "('s, 'w, 'v) ext \<Rightarrow> rtype \<Rightarrow> 's \<Rightarrow> resource_summary \<times> 's reconciler
     \<Rightarrow> unit outcome \<times> resource_summary \<times> 's reconciler" where
  "setMapValue E t value = (\<lambda>(rs, R).
     and_then_pure (GetObjectReference E rs) (rs, R) (\<lambda>(q, rs1).
       (Ok (), rs1, set_summaryMap t ((summaryMap t R)(q \<mapsto> value)) R)))"

section \<open>Registering and unregistering\<close>

definition unregisterResources ::
  "('s, 'w, 'v) ext \<Rightarrow> objref list \<Rightarrow> rtype \<Rightarrow> resource_summary \<times> 's process \<Rightarrow> unit outcome \<times> resource_summary \<times> 's process" where
  "unregisterResources E refs t = (\<lambda>(rs, p).
     and_then_pure (GetManager p) (rs, p) (\<lambda>m.
       (case for_each (\<lambda>r. UnRegisterResource E r t) refs (rs, m) of
          (x, rs1, m1) \<Rightarrow> (x, rs1, p\<lparr>managerInstance := Some m1\<rparr>))))"

definition registerResources ::
  "('s, 'w, 'v) ext \<Rightarrow> resource list \<Rightarrow> rtype \<Rightarrow> resource_summary \<times> 's process \<times> 'w
     \<Rightarrow> resource_hash list outcome \<times> resource_summary \<times> 's process \<times> 'w" where
  "registerResources E xs t = (\<lambda>(rs, p, w).
     and_then_pure (GetManager p) (rs, p, w) (\<lambda>m.
       (case register_loop (reconciler_getObjectRef E) (\<lambda>r. RegisterResource E r t) xs [] (rs, m, w) of
          (x, rs1, m1, w1) \<Rightarrow> (x, rs1, p\<lparr>managerInstance := Some m1\<rparr>, w1))))"

text \<open>One resource type of \<open>cleanMaps\<close>: unregister what the map lists, then remove the entry.\<close>

definition cleanMap ::
  "('s, 'w, 'v) ext \<Rightarrow> rtype \<Rightarrow> ('s, 'w) rstate \<Rightarrow> unit outcome \<times> ('s, 'w) rstate" where
  "cleanMap E t = (\<lambda>(rs, R, p, w).
     (case getMapValue E t (rs, R) of
        (Err e, rs1, R1) \<Rightarrow> (Err e, rs1, R1, p, w)
      | (Panic, rs1, R1) \<Rightarrow> (Panic, rs1, R1, p, w)
      | (Ok resourceSet, rs1, R1) \<Rightarrow>
          (case (case resourceSet of
                   None \<Rightarrow> (Ok (), rs1, p)
                 | Some s \<Rightarrow> unregisterResources E (set_Items E s) t (rs1, p)) of
             (Ok _, rs2, p2) \<Rightarrow>
               (case removeMapEntry E t (rs2, R1) of (x, rs3, R3) \<Rightarrow> (x, rs3, R3, p2, w))
           | (Err e, rs2, p2) \<Rightarrow> (Err e, rs2, R1, p2, w)
           | (Panic, rs2, p2) \<Rightarrow> (Panic, rs2, R1, p2, w))))"

definition cleanMaps ::
  "('s, 'w, 'v) ext \<Rightarrow> ('s, 'w) rstate \<Rightarrow> unit outcome \<times> ('s, 'w) rstate" where
  "cleanMaps E st =
     and_then (cleanMap E Resource st) (\<lambda>_ st1.
     and_then (cleanMap E KustomizeResource st1) (\<lambda>_ st2.
     cleanMap E HelmResource st2))"

definition setStatusHashes :: "rtype \<Rightarrow> resource_hash list \<Rightarrow> resource_summary \<Rightarrow> resource_summary" where
  "setStatusHashes t rhs rs = rs\<lparr>rs_Status := (case t of
     Resource \<Rightarrow> (rs_Status rs)\<lparr>ResourceHashes := rhs\<rparr>
   | KustomizeResource \<Rightarrow> (rs_Status rs)\<lparr>KustomizeResourceHashes := rhs\<rparr>
   | HelmResource \<Rightarrow> (rs_Status rs)\<lparr>HelmResourceHashes := rhs\<rparr>)\<rparr>"

definition updateMapsForResourceType ::
  "('s, 'w, 'v) ext \<Rightarrow> resource list \<Rightarrow> 's option \<Rightarrow> rtype \<Rightarrow> ('s, 'w) rstate \<Rightarrow> unit outcome \<times> ('s, 'w) rstate" where
  "updateMapsForResourceType E currentResources oldResources t = (\<lambda>(rs, R, p, w).
     (case registerResources E currentResources t (rs, p, w) of
        (Err e, rs1, p1, w1) \<Rightarrow> (Err e, rs1, R, p1, w1)
      | (Panic, rs1, p1, w1) \<Rightarrow> (Panic, rs1, R, p1, w1)
      | (Ok rhs, rs1, p1, w1) \<Rightarrow>
          (let currentObjRefs = fold (\<lambda>x. set_Insert E (reconciler_getObjectRef E x)) currentResources (set_new E)
           in case (case oldResources of
                      None \<Rightarrow> (Ok (), rs1, p1)
                    | Some old \<Rightarrow> unregisterResources E (set_Difference E old currentObjRefs) t (rs1, p1)) of
                (Ok _, rs2, p2) \<Rightarrow>
                  (case setMapValue E t currentObjRefs (setStatusHashes t rhs rs2, R) of
                     (x, rs3, R3) \<Rightarrow> (x, rs3, R3, p2, w1))
              | (Err e, rs2, p2) \<Rightarrow> (Err e, rs2, R, p2, w1)
              | (Panic, rs2, p2) \<Rightarrow> (Panic, rs2, R, p2, w1))))"

text \<open>The call with its argument: the previous set of the map is read first.\<close>

definition updateMap ::
  "('s, 'w, 'v) ext \<Rightarrow> resource list \<Rightarrow> rtype \<Rightarrow> ('s, 'w) rstate \<Rightarrow> unit outcome \<times> ('s, 'w) rstate" where
  "updateMap E currentResources t = (\<lambda>(rs, R, p, w).
     (case getMapValue E t (rs, R) of
        (Err e, rs1, R1) \<Rightarrow> (Err e, rs1, R1, p, w)
      | (Panic, rs1, R1) \<Rightarrow> (Panic, rs1, R1, p, w)
      | (Ok old, rs1, R1) \<Rightarrow> updateMapsForResourceType E currentResources old t (rs1, R1, p, w)))"

definition updateMapsAndResourceSummaryStatus ::
  "('s, 'w, 'v) ext \<Rightarrow> ('s, 'w) rstate \<Rightarrow> unit outcome \<times> ('s, 'w) rstate" where
  "updateMapsAndResourceSummaryStatus E = (\<lambda>(rs, R, p, w).
     (let directResources = getResources rs;
          kustomized = getKustomizeResources rs
      in case getHelmResources E rs (R, w) of
           (Err e, R1, w1) \<Rightarrow> (Err e, rs, R1, p, w1)
         | (Panic, R1, w1) \<Rightarrow> (Panic, rs, R1, p, w1)
         | (Ok charts, R1, w1) \<Rightarrow>
             and_then (updateMap E directResources Resource (rs, R1, p, w1)) (\<lambda>_ st1.
             and_then (updateMap E kustomized KustomizeResource st1) (\<lambda>_ st2.
             updateMap E charts HelmResource st2))))"

section \<open>The reconciliation\<close>

definition addFinalizer ::
  "('s, 'w, 'v) ext \<Rightarrow> resource_summary \<times> 'w \<Rightarrow> unit outcome \<times> resource_summary \<times> 'w" where
  "addFinalizer E = (\<lambda>(rs, w).
     (let rs1 = AddFinalizer E rs (ResourceSummaryFinalizer E)
      in case patch_NewHelper E rs1 w of
           (Err e, w1) \<Rightarrow> (Err e, rs1, w1)
         | (Panic, w1) \<Rightarrow> (Panic, rs1, w1)
         | (Ok _, w1) \<Rightarrow>
             (case patch_Patch E rs1 rs1 w1 of
                ((Err e, rs2), w2) \<Rightarrow> (Err (Wrapf e (''Failed to add finalizer for '' @ rs_Name rs2)), rs2, w2)
              | ((Panic, rs2), w2) \<Rightarrow> (Panic, rs2, w2)
              | ((Ok _, rs2), w2) \<Rightarrow> (Ok (), rs2, w2))))"

definition reconcileDelete ::
  "('s, 'w, 'v) ext \<Rightarrow> ('s, 'w) rstate \<Rightarrow> unit outcome \<times> ('s, 'w) rstate" where
  "reconcileDelete E st =
     and_then (cleanMaps E st) (\<lambda>_ (rs, R, p, w).
       (Ok (),
        if ContainsFinalizer E rs (ResourceSummaryFinalizer E)
        then RemoveFinalizer E rs (ResourceSummaryFinalizer E) else rs,
        R, p, w))"

definition reconcileNormal ::
  "('s, 'w, 'v) ext \<Rightarrow> ('s, 'w) rstate \<Rightarrow> unit outcome \<times> ('s, 'w) rstate" where
  "reconcileNormal E = (\<lambda>(rs, R, p, w).
     (if \<not> ContainsFinalizer E rs (ResourceSummaryFinalizer E)
      then (case addFinalizer E (rs, w) of
              (Err e, rs1, w1) \<Rightarrow> (Err e, rs1, R, p, w1)
            | (Panic, rs1, w1) \<Rightarrow> (Panic, rs1, R, p, w1)
            | (Ok _, rs1, w1) \<Rightarrow> updateMapsAndResourceSummaryStatus E (rs1, R, p, w1))
      else updateMapsAndResourceSummaryStatus E (rs, R, p, w)))"

text \<open>
  The whole reconciliation of a request. The scope is closed on every way out of the function once it
  exists, also when the body panics; an error from closing replaces the result.
\<close>

definition Reconcile ::
  "('s, 'w, 'v) ext \<Rightarrow> string \<Rightarrow> string \<Rightarrow> 's reconciler \<times> 's process \<times> 'w
     \<Rightarrow> unit outcome \<times> 's reconciler \<times> 's process \<times> 'w" where
  "Reconcile E ns n = (\<lambda>(R, p, w).
     (case client_Get E ns n w of
        (Err e, w1) \<Rightarrow>
          (if IsNotFound e then (Ok (), R, p, w1)
           else (Err (Wrapf e (''Failed to fetch ResourceSummary '' @ ns @ ''/'' @ n)), R, p, w1))
      | (Panic, w1) \<Rightarrow> (Panic, R, p, w1)
      | (Ok rs, w1) \<Rightarrow>
          (case NewResourceSummaryScope E \<lparr>params_Client = Some (), params_ResourceSummary = Some rs,
                  params_ControllerName = ''resourceSummary''\<rparr> w1 of
             (Err e, w2) \<Rightarrow> (Err (Wrapf e (''unable to create resourceSummary scope for '' @ ns @ ''/'' @ n)), R, p, w2)
           | (Panic, w2) \<Rightarrow> (Panic, R, p, w2)
           | (Ok sc, w2) \<Rightarrow>
               (case (if rs_DeletionTimestamp rs \<noteq> None then reconcileDelete E (rs, R, p, w2)
                      else reconcileNormal E (rs, R, p, w2)) of
                  (x, rs3, R3, p3, w3) \<Rightarrow>
                    (case scope_Close E (sc\<lparr>scope_ResourceSummary := rs3\<rparr>) w3 of
                       ((y, _), w4) \<Rightarrow>
                         (if x = Panic \<or> y = Panic then (Panic, R3, p3, w4)
                          else (case y of Err e \<Rightarrow> (Err e, R3, p3, w4) | _ \<Rightarrow> (x, R3, p3, w4)))))))) "

section \<open>Lemmas on the maps\<close>

lemma reconciler_getObjectRef_eq [simp]: "reconciler_getObjectRef E = getObjectRef E"
  by (simp add: fun_eq_iff reconciler_getObjectRef_def getObjectRef_def)

lemma summaryMap_set_summaryMap [simp]:
  "summaryMap t (set_summaryMap t' f R) = (if t = t' then f else summaryMap t R)"
  by (cases t; cases t') (simp_all add: summaryMap_def set_summaryMap_def)

lemma summaryMap_mapper [simp]: "summaryMap t (R\<lparr>mapper := b\<rparr>) = summaryMap t R"
  by (cases t) (simp_all add: summaryMap_def)

lemma statusHashes_setStatusHashes [simp]:
  "statusHashes t (rs_Status (setStatusHashes t' rhs rs)) = (if t = t' then rhs else statusHashes t (rs_Status rs))"
  by (cases t; cases t') (simp_all add: statusHashes_def setStatusHashes_def)

lemma setStatusHashes_frame [simp]:
  "rs_Namespace (setStatusHashes t rhs rs) = rs_Namespace rs" "rs_Name (setStatusHashes t rhs rs) = rs_Name rs"
  "rs_GVK (setStatusHashes t rhs rs) = rs_GVK rs" "rs_Spec (setStatusHashes t rhs rs) = rs_Spec rs"
  "rs_Finalizers (setStatusHashes t rhs rs) = rs_Finalizers rs"
  "rs_DeletionTimestamp (setStatusHashes t rhs rs) = rs_DeletionTimestamp rs"
  by (simp_all add: setStatusHashes_def)

text \<open>A reference depends on neither the status nor the finalizers.\<close>

lemma set_first_gvk_update:
  "set_first_gvk E gs (rs\<lparr>rs_Status := st\<rparr>) = (set_first_gvk E gs rs)\<lparr>rs_Status := st\<rparr>"
  "set_first_gvk E gs (rs\<lparr>rs_Finalizers := fs\<rparr>) = (set_first_gvk E gs rs)\<lparr>rs_Finalizers := fs\<rparr>"
  by (induction gs) auto

lemma GetObjectReference_update:
  assumes "GetObjectReference E rs = Ok (q, rs')"
  shows "GetObjectReference E (rs\<lparr>rs_Status := st\<rparr>) = Ok (q, rs'\<lparr>rs_Status := st\<rparr>)"
    and "GetObjectReference E (rs\<lparr>rs_Finalizers := fs\<rparr>) = Ok (q, rs'\<lparr>rs_Finalizers := fs\<rparr>)"
  using assms
  by (auto simp: GetObjectReference_def addTypeInformationToObject_def set_first_gvk_update
      split: outcome.splits prod.splits)

lemma GetObjectReference_setStatusHashes:
  "GetObjectReference E rs = Ok (q, rs') \<Longrightarrow>
    GetObjectReference E (setStatusHashes t rhs rs) = Ok (q, setStatusHashes t rhs rs')"
  using GetObjectReference_frame(6) [of E rs q rs'] GetObjectReference_update(1) [of E rs q rs']
  by (cases t) (simp_all add: setStatusHashes_def)

section \<open>What is tracked and what the maps list\<close>

text \<open>The resources a ResourceSummary tracks in the manager, and the resources the reconciler's map lists for it.\<close>

definition tracks :: "('s, 'w, 'v) ext \<Rightarrow> 's manager \<Rightarrow> objref \<Rightarrow> rtype \<Rightarrow> objref set" where
  "tracks E m q t = {r. (r, t, q) \<in> tracked E m}"

definition map_refs :: "('s, 'w, 'v) ext \<Rightarrow> 's reconciler \<Rightarrow> objref \<Rightarrow> rtype \<Rightarrow> objref set" where
  "map_refs E R q t = (case summaryMap t R q of None \<Rightarrow> {} | Some s \<Rightarrow> elems E s)"

text \<open>The resources of a list, and those of them that are to be tracked.\<close>

definition listed :: "('s, 'w, 'v) ext \<Rightarrow> resource list \<Rightarrow> objref set" where
  "listed E xs = getObjectRef E ` set xs"

definition wanted :: "('s, 'w, 'v) ext \<Rightarrow> resource list \<Rightarrow> objref set" where
  "wanted E xs = {getObjectRef E x | x. x \<in> set xs \<and> \<not> res_IgnoreForConfigurationDrift x}"

lemma wanted_listed: "wanted E xs \<subseteq> listed E xs"
  by (auto simp: wanted_def listed_def)

context libset
begin

lemma elems_fold_refs:
  "elems E (fold (\<lambda>x. set_Insert E (ref x)) xs s) = elems E s \<union> ref ` set xs"
  by (induction xs arbitrary: s) auto

text \<open>Unregistering through the package's instance.\<close>

lemma unregisterResources_Ok:
  assumes "GetObjectReference E rs = Ok (q, rs')" and "managerInstance p = Some m"
  shows "\<exists>rs1 m1. unregisterResources E refs t (rs, p) = (Ok (), rs1, p\<lparr>managerInstance := Some m1\<rparr>) \<and>
    tracked E m1 = tracked E m - {(r, t, q) | r. r \<in> set refs} \<and> (rs1 = rs \<or> rs1 = rs') \<and>
    (manager_inv E m \<longrightarrow> manager_inv E m1)"
proof -
  obtain rs1 m1 where *: "for_each (\<lambda>r. UnRegisterResource E r t) refs (rs, m) = (Ok (), rs1, m1)"
    "tracked E m1 = tracked E m - {(r, t, q) | r. r \<in> set refs}" "refs = [] \<and> rs1 = rs \<or> rs1 = rs'"
    using unregister_list [OF assms(1)] by blast
  show ?thesis
    by (rule exI [of _ rs1], rule exI [of _ m1]) (use * assms(2) unregister_list_inv [OF _ *(1)] in
        \<open>auto simp: unregisterResources_def GetManager_def\<close>)
qed

lemma cleanMap_Ok:
  assumes "GetObjectReference E rs = Ok (q, rs')" and "managerInstance p = Some m"
  shows "\<exists>m1. cleanMap E t (rs, R, p, w) =
      (Ok (), rs', set_summaryMap t ((summaryMap t R)(q := None)) R, p\<lparr>managerInstance := Some m1\<rparr>, w) \<and>
    tracked E m1 = tracked E m - {(r, t, q) | r. r \<in> map_refs E R q t} \<and>
    (manager_inv E m \<longrightarrow> manager_inv E m1)"
proof (cases "summaryMap t R q")
  case None
  then show ?thesis
    by (intro exI [of _ m]) (use assms GetObjectReference_idem [OF assms(1)] in
        \<open>auto simp: cleanMap_def getMapValue_def removeMapEntry_def map_refs_def\<close>)
next
  case (Some s)
  obtain rs1 m1 where *: "unregisterResources E (set_Items E s) t (rs', p) = (Ok (), rs1, p\<lparr>managerInstance := Some m1\<rparr>)"
    and T: "tracked E m1 = tracked E m - {(r, t, q) | r. r \<in> set (set_Items E s)}" and "rs1 = rs'"
    and I: "manager_inv E m \<longrightarrow> manager_inv E m1"
    using unregisterResources_Ok [OF GetObjectReference_idem [OF assms(1)] assms(2), of "set_Items E s" t] by blast
  then have "cleanMap E t (rs, R, p, w) =
      (Ok (), rs', set_summaryMap t ((summaryMap t R)(q := None)) R, p\<lparr>managerInstance := Some m1\<rparr>, w)"
    using Some assms(1) GetObjectReference_idem [OF assms(1)]
    by (simp add: cleanMap_def getMapValue_def removeMapEntry_def)
  moreover have "map_refs E R q t = set (set_Items E s)" using Some by (simp add: map_refs_def elems_def)
  ultimately show ?thesis using T I by (intro exI [of _ m1]) simp
qed

lemma tracks_minus:
  "tracked E m1 = tracked E m - {(r, t, q) | r. r \<in> A} \<Longrightarrow>
    tracks E m1 q' t' = (if q' = q \<and> t' = t then tracks E m q t - A else tracks E m q' t')"
  by (auto simp: tracks_def)

text \<open>Cleaning never fails; it removes what the maps list, and the entries.\<close>

lemma cleanMaps_Ok:
  assumes "GetObjectReference E rs = Ok (q, rs')" and "managerInstance p = Some m"
  obtains R1 m1 where "cleanMaps E (rs, R, p, w) = (Ok (), rs', R1, p\<lparr>managerInstance := Some m1\<rparr>, w)"
    and "\<And>q' t. tracks E m1 q' t = (if q' = q then tracks E m q t - map_refs E R q t else tracks E m q' t)"
    and "\<And>t. summaryMap t R1 = (summaryMap t R)(q := None)"
    and "manager_inv E m \<Longrightarrow> manager_inv E m1"
proof -
  note ref' = GetObjectReference_idem [OF assms(1)]
  let ?drop = "\<lambda>t R. set_summaryMap t ((summaryMap t R)(q := None)) R"
  obtain m1 where one: "cleanMap E Resource (rs, R, p, w) = (Ok (), rs', ?drop Resource R, p\<lparr>managerInstance := Some m1\<rparr>, w)"
    and T1: "tracked E m1 = tracked E m - {(r, Resource, q) | r. r \<in> map_refs E R q Resource}"
    and I1: "manager_inv E m \<Longrightarrow> manager_inv E m1" 
    using cleanMap_Ok [OF assms, of Resource R w] by blast
  obtain m2 where two: "cleanMap E KustomizeResource (rs', ?drop Resource R, p\<lparr>managerInstance := Some m1\<rparr>, w) =
      (Ok (), rs', ?drop KustomizeResource (?drop Resource R), p\<lparr>managerInstance := Some m2\<rparr>, w)"
    and T2: "tracked E m2 = tracked E m1 - {(r, KustomizeResource, q) | r. r \<in> map_refs E (?drop Resource R) q KustomizeResource}"
    and I2: "manager_inv E m1 \<Longrightarrow> manager_inv E m2"
    using cleanMap_Ok [OF ref', of "p\<lparr>managerInstance := Some m1\<rparr>" m1 KustomizeResource "?drop Resource R" w] by auto
  obtain m3 where three: "cleanMap E HelmResource (rs', ?drop KustomizeResource (?drop Resource R), p\<lparr>managerInstance := Some m2\<rparr>, w) =
      (Ok (), rs', ?drop HelmResource (?drop KustomizeResource (?drop Resource R)), p\<lparr>managerInstance := Some m3\<rparr>, w)"
    and T3: "tracked E m3 = tracked E m2 - {(r, HelmResource, q) | r. r \<in> map_refs E (?drop KustomizeResource (?drop Resource R)) q HelmResource}"
    and I3: "manager_inv E m2 \<Longrightarrow> manager_inv E m3"
    using cleanMap_Ok [OF ref', of "p\<lparr>managerInstance := Some m2\<rparr>" m2 HelmResource "?drop KustomizeResource (?drop Resource R)" w] by auto
  show thesis
  proof (rule that)
    show "cleanMaps E (rs, R, p, w) = (Ok (), rs', ?drop HelmResource (?drop KustomizeResource (?drop Resource R)),
        p\<lparr>managerInstance := Some m3\<rparr>, w)"
      by (simp only: cleanMaps_def one two three and_then_simps)
    show "tracks E m3 q' t = (if q' = q then tracks E m q t - map_refs E R q t else tracks E m q' t)" for q' t
      by (cases t) (simp_all add: tracks_minus [OF T3] tracks_minus [OF T2] tracks_minus [OF T1] map_refs_def)
    show "summaryMap t (?drop HelmResource (?drop KustomizeResource (?drop Resource R))) = (summaryMap t R)(q := None)" for t
      by (cases t) simp_all
    show "manager_inv E m \<Longrightarrow> manager_inv E m3" using I1 I2 I3 by blast
  qed
qed

lemma reconcileDelete_Ok:
  assumes "patch_helper E summaries kind" and "GetObjectReference E rs = Ok (q, rs')" and "managerInstance p = Some m"
  obtains rs1 R1 m1 where "reconcileDelete E (rs, R, p, w) = (Ok (), rs1, R1, p\<lparr>managerInstance := Some m1\<rparr>, w)"
    and "\<not> ContainsFinalizer E rs1 (ResourceSummaryFinalizer E)"
    and "\<forall>q' t. tracks E m1 q' t = (if q' = q then tracks E m q t - map_refs E R q t else tracks E m q' t)"
    and "\<forall>t. summaryMap t R1 = (summaryMap t R)(q := None)"
proof -
  let ?f = "ResourceSummaryFinalizer E"
  let ?rs = "if ContainsFinalizer E rs' ?f then RemoveFinalizer E rs' ?f else rs'"
  obtain R1 m1 where clean: "cleanMaps E (rs, R, p, w) = (Ok (), rs', R1, p\<lparr>managerInstance := Some m1\<rparr>, w)"
    and T: "\<And>q' t. tracks E m1 q' t = (if q' = q then tracks E m q t - map_refs E R q t else tracks E m q' t)"
    and S: "\<And>t. summaryMap t R1 = (summaryMap t R)(q := None)"
    using cleanMaps_Ok [OF assms(2,3)] by metis
  have "reconcileDelete E (rs, R, p, w) = (Ok (), ?rs, R1, p\<lparr>managerInstance := Some m1\<rparr>, w)"
    using clean by (simp add: reconcileDelete_def)
  moreover have "\<not> ContainsFinalizer E ?rs ?f"
    using patch_helper.contains_remove [OF assms(1), of rs' ?f] by simp
  ultimately show thesis using T S by (intro that) blast+
qed

text \<open>Registering through the package's instance, whichever way it ends.\<close>

lemma registerResources_result:
  assumes "GetObjectReference E rs = Ok (q, rs')" and "managerInstance p = Some m"
    and "registerResources E xs t (rs, p, w) = (x, rs1, p1, w1)"
  shows "\<exists>m1. p1 = p\<lparr>managerInstance := Some m1\<rparr> \<and> tracked E m \<subseteq> tracked E m1 \<and>
    tracked E m1 \<subseteq> tracked E m \<union> {(r, t, q) | r. r \<in> wanted E xs} \<and>
    (is_ok x \<longrightarrow> {(r, t, q) | r. r \<in> wanted E xs} \<subseteq> tracked E m1) \<and> (rs1 = rs \<or> rs1 = rs') \<and>
    (manager_inv E m \<longrightarrow> manager_inv E m1)"
proof -
  obtain m1 where loop: "register_loop (getObjectRef E) (\<lambda>r. RegisterResource E r t) xs [] (rs, m, w) = (x, rs1, m1, w1)"
    and p1: "p1 = p\<lparr>managerInstance := Some m1\<rparr>"
    using assms(2,3) by (auto simp: registerResources_def GetManager_def split: prod.splits)
  have "{(getObjectRef E y, t, q) | y. y \<in> set xs \<and> \<not> res_IgnoreForConfigurationDrift y} = {(r, t, q) | r. r \<in> wanted E xs}"
    by (auto simp: wanted_def)
  with register_list [OF assms(1) loop] register_list_inv [OF _ loop] p1 show ?thesis by auto
qed

text \<open>The two halves of one resource type: registering what is listed, then unregistering what no longer is.\<close>

lemma register_listed:
  assumes "GetObjectReference E rs = Ok (q, rs)" and "managerInstance p = Some m"
  obtains y m1 w1 where
    "register_loop (getObjectRef E) (\<lambda>r. RegisterResource E r t) xs [] (rs, m, w) = (y, rs, m1, w1)"
    "registerResources E xs t (rs, p, w) = (y, rs, p\<lparr>managerInstance := Some m1\<rparr>, w1)"
    "tracked E m \<subseteq> tracked E m1" "tracked E m1 \<subseteq> tracked E m \<union> {(r, t, q) | r. r \<in> wanted E xs}"
    "is_ok y \<longrightarrow> {(r, t, q) | r. r \<in> wanted E xs} \<subseteq> tracked E m1" "manager_inv E m \<longrightarrow> manager_inv E m1"
proof -
  obtain y rs1 m1 w1 where loop: "register_loop (getObjectRef E) (\<lambda>r. RegisterResource E r t) xs [] (rs, m, w) = (y, rs1, m1, w1)"
    using prod_cases4 by blast
  have reg: "registerResources E xs t (rs, p, w) = (y, rs1, p\<lparr>managerInstance := Some m1\<rparr>, w1)"
    using loop assms(2) by (simp add: registerResources_def GetManager_def)
  from registerResources_result [OF assms reg] that [of y m1 w1] loop reg show thesis
    by (auto dest!: arg_cong [where f = managerInstance])
qed

lemma unregister_unlisted:
  assumes "GetObjectReference E rs = Ok (q, rs)" and "managerInstance p = Some m"
  obtains m1 where
    "(case summaryMap t R q of None \<Rightarrow> (Ok (), rs, p) | Some old \<Rightarrow> unregisterResources E (set_Difference E old s) t (rs, p)) =
       (Ok (), rs, p\<lparr>managerInstance := Some m1\<rparr>)"
    "tracked E m1 = tracked E m - {(r, t, q) | r. r \<in> map_refs E R q t - elems E s}" "manager_inv E m \<longrightarrow> manager_inv E m1"
proof (cases "summaryMap t R q")
  case None
  moreover have "p = p\<lparr>managerInstance := Some m\<rparr>" using assms(2) by (cases p) simp
  ultimately show thesis using that [of m] by (simp add: map_refs_def)
next
  case (Some old)
  then show thesis
    using unregisterResources_Ok [OF assms, of "set_Difference E old s" t] that by (auto simp: map_refs_def)
qed

text \<open>
  One resource type, in its two ways: registering fails and nothing but the manager has changed, or
  the resources no longer listed are unregistered, the status and the map are set.
\<close>

lemma updateMap_cases:
  assumes "GetObjectReference E rs = Ok (q, rs')" and "managerInstance p = Some m"
  obtains (failed) x m1 w1 where "\<not> is_ok x" "\<exists>z. register_loop (getObjectRef E) (\<lambda>r. RegisterResource E r t) xs [] (rs', m, w) = (z, rs', m1, w1)"
      "updateMap E xs t (rs, R, p, w) = (x, rs', R, p\<lparr>managerInstance := Some m1\<rparr>, w1)"
      "tracked E m \<subseteq> tracked E m1" "tracked E m1 \<subseteq> tracked E m \<union> {(r, t, q) | r. r \<in> wanted E xs}"
      "manager_inv E m \<Longrightarrow> manager_inv E m1"
  | (updated) rhs m1 m2 w1 s where
      "register_loop (getObjectRef E) (\<lambda>r. RegisterResource E r t) xs [] (rs', m, w) = (Ok rhs, rs', m1, w1)"
      "updateMap E xs t (rs, R, p, w) = (Ok (), setStatusHashes t rhs rs',
         set_summaryMap t ((summaryMap t R)(q \<mapsto> s)) R, p\<lparr>managerInstance := Some m2\<rparr>, w1)"
      "elems E s = listed E xs"
      "tracked E m2 = (tracked E m \<union> {(r, t, q) | r. r \<in> wanted E xs}) - {(r, t, q) | r. r \<in> map_refs E R q t - listed E xs}"
      "manager_inv E m \<Longrightarrow> manager_inv E m2"
proof -
  note ref' = GetObjectReference_idem [OF assms(1)]
  let ?s = "fold (\<lambda>x. set_Insert E (getObjectRef E x)) xs (set_new E)"
  have s: "elems E ?s = listed E xs" by (simp add: elems_fold_refs listed_def)
  obtain y m1 w1 where loop: "register_loop (getObjectRef E) (\<lambda>r. RegisterResource E r t) xs [] (rs', m, w) = (y, rs', m1, w1)"
    and reg: "registerResources E xs t (rs', p, w) = (y, rs', p\<lparr>managerInstance := Some m1\<rparr>, w1)"
    and T1: "tracked E m \<subseteq> tracked E m1" "tracked E m1 \<subseteq> tracked E m \<union> {(r, t, q) | r. r \<in> wanted E xs}"
      "is_ok y \<longrightarrow> {(r, t, q) | r. r \<in> wanted E xs} \<subseteq> tracked E m1"
    and I1: "manager_inv E m \<longrightarrow> manager_inv E m1"
    by (rule register_listed [OF ref' assms(2)])
  have upd: "updateMap E xs t (rs, R, p, w) = updateMapsForResourceType E xs (summaryMap t R q) t (rs', R, p, w)"
    using assms(1) by (simp add: updateMap_def getMapValue_def)
  show thesis
  proof (cases "is_ok y")
    case True
    then obtain rhs where y: "y = Ok rhs" by (auto simp: is_ok_iff)
    obtain m2 where un: "(case summaryMap t R q of None \<Rightarrow> (Ok (), rs', p\<lparr>managerInstance := Some m1\<rparr>)
          | Some old \<Rightarrow> unregisterResources E (set_Difference E old ?s) t (rs', p\<lparr>managerInstance := Some m1\<rparr>)) =
        (Ok (), rs', p\<lparr>managerInstance := Some m1\<rparr>\<lparr>managerInstance := Some m2\<rparr>)"
      and T2: "tracked E m2 = tracked E m1 - {(r, t, q) | r. r \<in> map_refs E R q t - elems E ?s}"
      and I2: "manager_inv E m1 \<longrightarrow> manager_inv E m2"
      by (rule unregister_unlisted [OF ref', of "p\<lparr>managerInstance := Some m1\<rparr>" m1]) simp_all
    have set: "setMapValue E t ?s (setStatusHashes t rhs rs', R) =
        (Ok (), setStatusHashes t rhs rs', set_summaryMap t ((summaryMap t R)(q \<mapsto> ?s)) R)"
      by (simp add: setMapValue_def GetObjectReference_setStatusHashes [OF ref'])
    have "tracked E m1 = tracked E m \<union> {(r, t, q) | r. r \<in> wanted E xs}" using T1 True by auto
    with T2 s have T: "tracked E m2 = (tracked E m \<union> {(r, t, q) | r. r \<in> wanted E xs}) - {(r, t, q) | r. r \<in> map_refs E R q t - listed E xs}"
      by (simp only:)
    show thesis
      by (rule updated [OF loop [unfolded y] _ s T]) (use upd reg y un set I1 I2 in \<open>simp_all add: updateMapsForResourceType_def\<close>)
  next
    case False
    then consider e where "y = Err e" | "y = Panic" by (cases y) auto
    then show thesis
      by cases (rule failed [of "Err _" m1 w1], use upd loop reg T1 I1 in \<open>simp_all add: updateMapsForResourceType_def\<close>,
          rule failed [of Panic m1 w1], use upd loop reg T1 I1 in \<open>simp_all add: updateMapsForResourceType_def\<close>)
  qed
qed

end

text \<open>
  What a successful reconciliation of one type establishes for the ResourceSummary, and what it leaves
  alone.
\<close>

definition after_type ::
  "('s, 'w, 'v) ext \<Rightarrow> resource list \<Rightarrow> objref \<Rightarrow> rtype \<Rightarrow> 's manager \<times> 's reconciler \<Rightarrow> 's manager \<times> 's reconciler \<Rightarrow> bool" where
  "after_type E xs q t = (\<lambda>(m, R) (m1, R1).
     tracks E m1 q t = (tracks E m q t \<union> wanted E xs) - (map_refs E R q t - listed E xs) \<and>
     map_refs E R1 q t = listed E xs)"

definition others_kept ::
  "('s, 'w, 'v) ext \<Rightarrow> objref \<Rightarrow> rtype set \<Rightarrow> 's manager \<times> 's reconciler \<Rightarrow> 's manager \<times> 's reconciler \<Rightarrow> bool" where
  "others_kept E q ts = (\<lambda>(m, R) (m1, R1). \<forall>q' t'. q' \<noteq> q \<or> t' \<notin> ts \<longrightarrow>
     tracks E m1 q' t' = tracks E m q' t' \<and> map_refs E R1 q' t' = map_refs E R q' t')"

text \<open>A step of a reconciliation: the instance is still there, the reference and the spec are the same.\<close>

definition same_object :: "('s, 'w, 'v) ext \<Rightarrow> objref \<Rightarrow> resource_summary \<Rightarrow> resource_summary \<Rightarrow> bool" where
  "same_object E q rs rs1 \<longleftrightarrow> (\<exists>rs2. GetObjectReference E rs1 = Ok (q, rs2)) \<and>
     rs_Spec rs1 = rs_Spec rs \<and> rs_Finalizers rs1 = rs_Finalizers rs"

lemma others_kept_refl [simp]: "others_kept E q ts s s"
  by (cases s) (simp add: others_kept_def)

lemma others_kept_trans:
  "others_kept E q ts s s1 \<Longrightarrow> others_kept E q ts' s1 s2 \<Longrightarrow> others_kept E q (ts \<union> ts') s s2"
  by (cases s; cases s1; cases s2) (auto simp: others_kept_def)

lemma getRESTMapper_maps: "getRESTMapper E (R, w) = (x, R1, w1) \<Longrightarrow> summaryMap t R1 = summaryMap t R"
  by (auto simp: getRESTMapper_def split: if_splits prod.splits outcome.splits)

lemma setNamespaces_maps: "setNamespaces E ns xs (R, w) = (x, R1, w1) \<Longrightarrow> summaryMap t R1 = summaryMap t R"
proof (induction xs arbitrary: R w x R1 w1)
  case (Cons y ys)
  have rest: "summaryMap t R3 = summaryMap t R2"
    if "and_then (setNamespaces E ns ys (R2, w2)) (\<lambda>zs st1. (Ok (f zs), st1)) = (z, R3, w3)" for R2 w2 f z R3 w3
    using that Cons.IH [of R2 w2]
    by (cases "setNamespaces E ns ys (R2, w2)"; cases "fst (setNamespaces E ns ys (R2, w2))") auto
  obtain v R2 w2 where v: "getRESTMapper E (R, w) = (v, R2, w2)" using prod_cases3 by blast
  from Cons.prems v getRESTMapper_maps [OF v, of t] show ?case
    by (cases v) (auto simp: Let_def dest!: rest split: if_splits prod.splits outcome.splits)
qed simp

lemma getHelmResources_loop_maps:
  "getHelmResources_loop E cs found (R, w) = (x, R1, w1) \<Longrightarrow> summaryMap t R1 = summaryMap t R"
proof (induction cs arbitrary: found R w)
  case (Cons c cs)
  obtain v R2 w2 where v: "getChartResource E c (R, w) = (v, R2, w2)" using prod_cases3 by blast
  then have "summaryMap t R2 = summaryMap t R" unfolding getChartResource_def by (rule setNamespaces_maps)
  with Cons v show ?case by (cases v) auto
qed simp

context libset
begin

lemma updateMap_Ok:
  assumes "GetObjectReference E rs = Ok (q, rs')" and "managerInstance p = Some m"
    and "updateMap E xs t (rs, R, p, w) = (Ok (), rs1, R1, p1, w1)"
  shows "\<exists>m1. p1 = p\<lparr>managerInstance := Some m1\<rparr> \<and> after_type E xs q t (m, R) (m1, R1) \<and>
    others_kept E q {t} (m, R) (m1, R1) \<and> same_object E q rs rs1 \<and> (manager_inv E m \<longrightarrow> manager_inv E m1)"
  using assms(1,2)
proof (cases rule: updateMap_cases [where xs = xs and t = t and R = R and w = w])
  case (failed x m1 w1)
  then show ?thesis using assms(3) by auto
next
  case (updated rhs m1 m2 w2 s)
  then have eqs: "rs1 = setStatusHashes t rhs rs'" "R1 = set_summaryMap t ((summaryMap t R)(q \<mapsto> s)) R"
    "p1 = p\<lparr>managerInstance := Some m2\<rparr>" using assms(3) by simp_all
  have "same_object E q rs rs1"
    using GetObjectReference_setStatusHashes [OF GetObjectReference_idem [OF assms(1)], of t rhs]
      GetObjectReference_frame(4,5) [OF assms(1)] by (simp add: same_object_def eqs)
  moreover have "after_type E xs q t (m, R) (m2, R1)" "others_kept E q {t} (m, R) (m2, R1)"
    using updated(3,4) by (auto simp: after_type_def others_kept_def tracks_def map_refs_def eqs)
  ultimately show ?thesis using updated(5) eqs(3) by blast
qed

text \<open>Also a failed step touches neither the maps nor the other ResourceSummaries.\<close>

lemma updateMap_failed:
  assumes "GetObjectReference E rs = Ok (q, rs')" and "managerInstance p = Some m"
    and "updateMap E xs t (rs, R, p, w) = (x, rs1, R1, p1, w1)" and "\<not> is_ok x"
  shows "\<exists>m1. p1 = p\<lparr>managerInstance := Some m1\<rparr> \<and> R1 = R \<and> tracks E m q t \<subseteq> tracks E m1 q t \<and>
    tracks E m1 q t \<subseteq> tracks E m q t \<union> wanted E xs \<and>
    others_kept E q {t} (m, R) (m1, R1) \<and> same_object E q rs rs1 \<and> (manager_inv E m \<longrightarrow> manager_inv E m1)"
  using assms(1,2)
proof (cases rule: updateMap_cases [where xs = xs and t = t and R = R and w = w])
  case (failed y m1 w1)
  then have eqs: "rs1 = rs'" "R1 = R" "p1 = p\<lparr>managerInstance := Some m1\<rparr>" using assms(3) by simp_all
  have "same_object E q rs rs1"
    using GetObjectReference_idem [OF assms(1)] GetObjectReference_frame(4,5) [OF assms(1)]
    by (simp add: same_object_def eqs)
  moreover have "tracks E m q t \<subseteq> tracks E m1 q t" "tracks E m1 q t \<subseteq> tracks E m q t \<union> wanted E xs"
    "others_kept E q {t} (m, R) (m1, R1)"
    using failed(4,5) by (auto simp: others_kept_def tracks_def eqs)
  ultimately show ?thesis using failed(6) eqs(2,3) by blast
next
  case (updated rhs m1 m2 w2 s)
  then show ?thesis using assms(3,4) by simp
qed

end

text \<open>What was registered before the failure stays registered.\<close>

context libset
begin

lemma updateMap_prefix:
  assumes "GetObjectReference E rs = Ok (q, rs')" and "managerInstance p = Some m"
    and "is_ok (fst (registerResources E ys t (rs', p, w)))"
    and "updateMap E (ys @ zs) t (rs, R, p, w) = (Err e, rs1, R1, p1, w1)"
  shows "\<exists>m1. managerInstance p1 = Some m1 \<and> wanted E ys \<subseteq> tracks E m1 q t"
proof -
  note ref' = GetObjectReference_idem [OF assms(1)]
  let ?loop = "register_loop (getObjectRef E) (\<lambda>r. RegisterResource E r t)"
  obtain y m2 w2 where one: "?loop ys [] (rs', m, w) = (y, rs', m2, w2)"
    "registerResources E ys t (rs', p, w) = (y, rs', p\<lparr>managerInstance := Some m2\<rparr>, w2)"
    and T: "is_ok y \<longrightarrow> {(r, t, q) | r. r \<in> wanted E ys} \<subseteq> tracked E m2"
    by (rule register_listed [OF ref' assms(2)])
  then obtain hs where y: "y = Ok hs" using assms(3) by (auto simp: is_ok_iff)
  from assms(1,2) show ?thesis
  proof (cases rule: updateMap_cases [where xs = "ys @ zs" and t = t and R = R and w = w])
    case (failed x m1 w3)
    then obtain z where "?loop zs hs (rs', m2, w2) = (z, rs', m1, w3)"
      using one(1) y by (auto simp: register_loop_append)
    from register_list [OF ref' this] have "tracked E m2 \<subseteq> tracked E m1" by blast
    moreover have "managerInstance p1 = Some m1" using failed(3) assms(4) by auto
    ultimately show ?thesis using T y by (auto simp: tracks_def)
  qed (use assms(4) in simp)
qed

end

text \<open>The resources of the spec by type, the charts' with the namespaces they were given.\<close>

definition current_resources :: "resource_summary \<Rightarrow> resource list \<Rightarrow> rtype \<Rightarrow> resource list" where
  "current_resources rs charts t = (case t of
     Resource \<Rightarrow> spec_Resources (rs_Spec rs)
   | KustomizeResource \<Rightarrow> spec_KustomizeResources (rs_Spec rs)
   | HelmResource \<Rightarrow> charts)"

text \<open>Everything a ResourceSummary tracks is listed in the reconciler's maps.\<close>

definition synced :: "('s, 'w, 'v) ext \<Rightarrow> objref \<Rightarrow> 's manager \<times> 's reconciler \<Rightarrow> bool" where
  "synced E q = (\<lambda>(m, R). \<forall>t. tracks E m q t \<subseteq> map_refs E R q t)"

lemma same_object_trans: "same_object E q rs rs1 \<Longrightarrow> same_object E q rs1 rs2 \<Longrightarrow> same_object E q rs rs2"
  by (simp add: same_object_def)

context libset
begin

lemma updateMaps_Ok:
  assumes "GetObjectReference E rs = Ok (q, rs')" and "managerInstance p = Some m"
    and "updateMapsAndResourceSummaryStatus E (rs, R, p, w) = (Ok (), rs1, R1, p1, w1)"
  shows "\<exists>m1 charts. p1 = p\<lparr>managerInstance := Some m1\<rparr> \<and> fst (getHelmResources E rs (R, w)) = Ok charts \<and>
    (\<forall>t. after_type E (current_resources rs charts t) q t (m, R) (m1, R1)) \<and>
    others_kept E q UNIV (m, R) (m1, R1) \<and> same_object E q rs rs1 \<and> (manager_inv E m \<longrightarrow> manager_inv E m1)"
proof -
  obtain charts R0 w0 rs2 R2 p2 w2 rs3 R3 p3 w3 where charts: "getHelmResources E rs (R, w) = (Ok charts, R0, w0)"
    and one: "updateMap E (getResources rs) Resource (rs, R0, p, w0) = (Ok (), rs2, R2, p2, w2)"
    and two: "updateMap E (getKustomizeResources rs) KustomizeResource (rs2, R2, p2, w2) = (Ok (), rs3, R3, p3, w3)"
    and three: "updateMap E charts HelmResource (rs3, R3, p3, w3) = (Ok (), rs1, R1, p1, w1)"
    using assms(3) by (auto simp: updateMapsAndResourceSummaryStatus_def Let_def split: prod.splits outcome.splits)
  have R0: "map_refs E R0 q' t = map_refs E R q' t" for q' t
    using charts getHelmResources_loop_maps unfolding getHelmResources_def map_refs_def by metis
  obtain m2 where p2: "p2 = p\<lparr>managerInstance := Some m2\<rparr>"
    and A1: "after_type E (getResources rs) q Resource (m, R0) (m2, R2)" and K1: "others_kept E q {Resource} (m, R0) (m2, R2)"
    and S1: "same_object E q rs rs2" and I1: "manager_inv E m \<longrightarrow> manager_inv E m2"
    using updateMap_Ok [OF assms(1,2) one] by blast
  obtain rs2' where ref2: "GetObjectReference E rs2 = Ok (q, rs2')" using S1 by (auto simp: same_object_def)
  obtain m3 where p3: "p3 = p\<lparr>managerInstance := Some m3\<rparr>"
    and A2: "after_type E (getKustomizeResources rs) q KustomizeResource (m2, R2) (m3, R3)"
    and K2: "others_kept E q {KustomizeResource} (m2, R2) (m3, R3)"
    and S2: "same_object E q rs2 rs3" and I2: "manager_inv E m2 \<longrightarrow> manager_inv E m3"
    using updateMap_Ok [OF ref2 _ two] p2 by auto
  obtain rs3' where ref3: "GetObjectReference E rs3 = Ok (q, rs3')" using S2 by (auto simp: same_object_def)
  obtain m1 where p1: "p1 = p\<lparr>managerInstance := Some m1\<rparr>"
    and A3: "after_type E charts q HelmResource (m3, R3) (m1, R1)" and K3: "others_kept E q {HelmResource} (m3, R3) (m1, R1)"
    and S3: "same_object E q rs3 rs1" and I3: "manager_inv E m3 \<longrightarrow> manager_inv E m1"
    using updateMap_Ok [OF ref3 _ three] p3 by auto
  note * = A1 A2 A3 K1 K2 K3
  have after: "after_type E (current_resources rs charts t) q t (m, R) (m1, R1)" for t
    by (cases t) (use * in \<open>simp_all add: after_type_def others_kept_def current_resources_def
        getResources_def getKustomizeResources_def R0\<close>)
  have "others_kept E q UNIV (m, R) (m1, R1)" using * by (simp add: others_kept_def R0)
  then show ?thesis
    using p1 charts after same_object_trans [OF same_object_trans [OF S1 S2] S3] I1 I2 I3 by auto
qed

end

section \<open>A reconciliation on the reference cluster\<close>

definition ex_reconciler :: "objref list reconciler" where
  "ex_reconciler = \<lparr>RunMode = DoNotSendUpdates, rec_ClusterNamespace = ''clusters'', rec_ClusterName = ''c1'',
     rec_ClusterType = ''Capi'', ResourceSummaryMap = Map.empty, HelmResourceSummaryMap = Map.empty,
     KustomizeResourceSummaryMap = Map.empty, mapper = False\<rparr>"

definition ex_started :: "objref list process" where
  "ex_started = ex_process\<lparr>managerInstance := Some ex_manager\<rparr>"

text \<open>After the example's ResourceSummary is reconciled.\<close>

definition ex_synced :: "objref list reconciler" where
  "ex_synced = ex_reconciler\<lparr>ResourceSummaryMap := [ex_summary_ref \<mapsto> [ex_deployment_ref]],
     HelmResourceSummaryMap := [ex_summary_ref \<mapsto> []], KustomizeResourceSummaryMap := [ex_summary_ref \<mapsto> []]\<rparr>"

lemmas reconciler_run [run] = getResources_def getKustomizeResources_def getHelmResources_def
  updateMapsAndResourceSummaryStatus_def updateMap_def updateMapsForResourceType_def registerResources_def
  unregisterResources_def getMapValue_def setMapValue_def removeMapEntry_def summaryMap_def set_summaryMap_def
  setStatusHashes_def GetManager_def cleanMaps_def cleanMap_def

lemma ex_getObjectRef: "getObjectRef ref_ext ex_deployment = ex_deployment_ref"
  by (simp add: run)

lemma ex_reconcile:
  "updateMapsAndResourceSummaryStatus ref_ext (ex_summary, ex_reconciler, ex_started, ex_cluster) =
     (Ok (), ex_written, ex_synced, ex_started\<lparr>managerInstance := Some ex_registered\<rparr>, ex_cluster)"
proof -
  have spec: "spec_Resources (rs_Spec ex_summary) = [ex_deployment]" "spec_KustomizeResources (rs_Spec ex_summary) = []"
    "spec_ChartResources (rs_Spec ex_summary) = []" by (simp_all add: ex_summary_def)
  have track: "\<not> res_IgnoreForConfigurationDrift ex_deployment" by (simp add: ex_deployment_def)
  have loop: "register_loop (getObjectRef ref_ext) (\<lambda>r. RegisterResource ref_ext r Resource) [ex_deployment] []
      (ex_summary, ex_manager, ex_cluster) =
      (Ok [\<lparr>rh_Resource = ex_deployment, rh_Hash = sprintf_x (Some ex_hash)\<rparr>], ex_summary, ex_registered, ex_cluster)"
    by (simp add: track ex_getObjectRef ex_register)
  have ref: "GetObjectReference ref_ext (ex_summary\<lparr>rs_Status := st\<rparr>) = Ok (ex_summary_ref, ex_summary\<lparr>rs_Status := st\<rparr>)" for st
    by (rule GetObjectReference_update(1) [OF ex_reference])
  let ?st = "ex_status\<lparr>ResourceHashes := [\<lparr>rh_Resource = ex_deployment, rh_Hash = sprintf_x (Some ex_hash)\<rparr>]\<rparr>"
  let ?p = "ex_started\<lparr>managerInstance := Some ex_registered\<rparr>"
  let ?R1 = "ex_reconciler\<lparr>ResourceSummaryMap := [ex_summary_ref \<mapsto> [ex_deployment_ref]]\<rparr>"
  let ?R2 = "?R1\<lparr>KustomizeResourceSummaryMap := [ex_summary_ref \<mapsto> []]\<rparr>"
  note defs = updateMap_def updateMapsForResourceType_def registerResources_def getMapValue_def setMapValue_def
        setStatusHashes_def GetManager_def summaryMap_def set_summaryMap_def ref_ext_sel
  have one: "updateMap ref_ext [ex_deployment] Resource (ex_summary, ex_reconciler, ex_started, ex_cluster) =
      (Ok (), ex_summary\<lparr>rs_Status := ?st\<rparr>, ?R1, ?p, ex_cluster)"
    using loop by (simp add: defs ex_started_def ex_getObjectRef ref ex_reconciler_def del: register_loop.simps)
      (simp add: ex_summary_def)
  have two: "updateMap ref_ext [] KustomizeResource (ex_summary\<lparr>rs_Status := ?st\<rparr>, ?R1, ?p, ex_cluster) =
      (Ok (), ex_summary\<lparr>rs_Status := ?st\<rparr>, ?R2, ?p, ex_cluster)"
    by (simp add: defs ref ex_reconciler_def ex_started_def) (simp add: ex_status_def)
  have three: "updateMap ref_ext [] HelmResource (ex_summary\<lparr>rs_Status := ?st\<rparr>, ?R2, ?p, ex_cluster) =
      (Ok (), ex_summary\<lparr>rs_Status := ?st\<rparr>, ex_synced, ?p, ex_cluster)"
    by (simp add: defs ref ex_reconciler_def ex_started_def ex_synced_def) (simp add: ex_status_def)
  show ?thesis
    by (simp only: updateMapsAndResourceSummaryStatus_def getResources_def getKustomizeResources_def getHelmResources_def
        getHelmResources_loop.simps spec Let_def prod.case outcome.case one two three and_then_simps ex_written_def)
qed

lemma ex_started_manager: "managerInstance ex_started = Some ex_manager"
  by (simp add: ex_started_def)

lemma ex_manager_tracks [simp]: "tracks ref_ext ex_manager q t = {}"
  by (simp add: tracks_def ex_manager_def)

definition ex_deleted :: resource_summary where
  "ex_deleted = ex_summary\<lparr>rs_DeletionTimestamp := Some 7, rs_Finalizers := [''resourcesummary.finalizer'']\<rparr>"

lemma ex_deleted_reference: "GetObjectReference ref_ext ex_deleted = Ok (ex_summary_ref, ex_deleted)"
  by (simp add: ex_deleted_def run)

lemma ex_synced_fresh: "synced ref_ext q (ex_manager, ex_reconciler)"
  by (simp add: synced_def)

section \<open>Properties\<close>

text \<open>
  (C5) A successful reconciliation brings the manager in line with the spec. If everything the
  ResourceSummary tracks was listed in the reconciler's maps, then afterwards it tracks, for each
  resource type, every resource of the spec that is not to be ignored and no resource that the spec
  does not list; the maps list exactly the spec's resources, so that the condition holds again; what
  other ResourceSummaries track, and their entries in the maps, are untouched.
\<close>

theorem reconcile_tracks_spec:
  assumes "libset E" and "GetObjectReference E rs = Ok (q, rs')" and "managerInstance p = Some m"
    and "updateMapsAndResourceSummaryStatus E (rs, R, p, w) = (Ok (), rs1, R1, p1, w1)" and "synced E q (m, R)"
  shows "\<exists>m1 charts. managerInstance p1 = Some m1 \<and> fst (getHelmResources E rs (R, w)) = Ok charts \<and>
    (\<forall>t. wanted E (current_resources rs charts t) \<subseteq> tracks E m1 q t \<and>
         tracks E m1 q t \<subseteq> listed E (current_resources rs charts t) \<and>
         map_refs E R1 q t = listed E (current_resources rs charts t)) \<and>
    synced E q (m1, R1) \<and>
    (\<forall>q' t. q' \<noteq> q \<longrightarrow> tracks E m1 q' t = tracks E m q' t \<and> map_refs E R1 q' t = map_refs E R q' t)"
proof -
  obtain m1 charts where p1: "p1 = p\<lparr>managerInstance := Some m1\<rparr>" and charts: "fst (getHelmResources E rs (R, w)) = Ok charts"
    and after: "\<forall>t. after_type E (current_resources rs charts t) q t (m, R) (m1, R1)"
    and others: "others_kept E q UNIV (m, R) (m1, R1)"
    using libset.updateMaps_Ok [OF assms(1-4)] by blast
  have "wanted E (current_resources rs charts t) \<subseteq> tracks E m1 q t \<and>
      tracks E m1 q t \<subseteq> listed E (current_resources rs charts t) \<and>
      map_refs E R1 q t = listed E (current_resources rs charts t)" for t
    using after [THEN spec, of t] assms(5) wanted_listed [of E "current_resources rs charts t"]
    unfolding after_type_def synced_def by blast
  then show ?thesis using p1 charts others by (auto simp: synced_def others_kept_def)
qed

theorem reconcile_tracks_spec_witness:
  "ex_deployment_ref \<in> tracks ref_ext ex_registered ex_summary_ref Resource \<and>
   synced ref_ext ex_summary_ref (ex_registered, ex_synced)"
proof -
  obtain m1 charts where m1: "managerInstance (ex_started\<lparr>managerInstance := Some ex_registered\<rparr>) = Some m1"
    and t: "\<forall>t. wanted ref_ext (current_resources ex_summary charts t) \<subseteq> tracks ref_ext m1 ex_summary_ref t"
    and s: "synced ref_ext ex_summary_ref (m1, ex_synced)"
    using reconcile_tracks_spec [OF ref_set.libset_axioms ex_reference ex_started_manager ex_reconcile ex_synced_fresh]
    by blast
  have "ex_deployment_ref \<in> wanted ref_ext (current_resources ex_summary charts Resource)"
    by (simp add: wanted_def current_resources_def ex_summary_def ex_getObjectRef [symmetric])
      (auto simp: ex_deployment_def)
  with m1 t s show ?thesis by auto
qed

text \<open>
  (C13) Deleting a ResourceSummary whose tracked resources are all listed in the reconciler's maps never
  fails once the manager exists: afterwards it tracks nothing, none of the three maps has an entry for
  it, its finalizer is removed, and what the other ResourceSummaries track and their entries are as
  before.
\<close>

theorem reconcile_delete_forgets:
  assumes "patch_helper E summaries kind" and "libset E" and "GetObjectReference E rs = Ok (q, rs')"
    and "managerInstance p = Some m" and "synced E q (m, R)"
  shows "\<exists>rs1 R1 m1. reconcileDelete E (rs, R, p, w) = (Ok (), rs1, R1, p\<lparr>managerInstance := Some m1\<rparr>, w) \<and>
    \<not> ContainsFinalizer E rs1 (ResourceSummaryFinalizer E) \<and>
    (\<forall>t. tracks E m1 q t = {} \<and> summaryMap t R1 q = None) \<and>
    (\<forall>q' t. q' \<noteq> q \<longrightarrow> tracks E m1 q' t = tracks E m q' t \<and> summaryMap t R1 q' = summaryMap t R q')"
proof -
  obtain rs1 R1 m1 where "reconcileDelete E (rs, R, p, w) = (Ok (), rs1, R1, p\<lparr>managerInstance := Some m1\<rparr>, w)"
    and "\<not> ContainsFinalizer E rs1 (ResourceSummaryFinalizer E)"
    and "\<forall>q' t. tracks E m1 q' t = (if q' = q then tracks E m q t - map_refs E R q t else tracks E m q' t)"
    and "\<forall>t. summaryMap t R1 = (summaryMap t R)(q := None)"
    by (rule libset.reconcileDelete_Ok [OF assms(2,1,3,4), of R w])
  with assms(5) show ?thesis by (intro exI [of _ rs1] exI [of _ R1] exI [of _ m1]) (simp add: synced_def)
qed

text \<open>The example's ResourceSummary, reconciled before and now being deleted.\<close>

theorem reconcile_delete_forgets_witness:
  "tracks ref_ext ex_registered ex_summary_ref Resource = {ex_deployment_ref} \<and>
   summaryMap Resource ex_synced ex_summary_ref = Some [ex_deployment_ref] \<and>
   ContainsFinalizer ref_ext ex_deleted (ResourceSummaryFinalizer ref_ext) \<and>
   (\<exists>rs1 R1 m1. reconcileDelete ref_ext (ex_deleted, ex_synced, ex_started\<lparr>managerInstance := Some ex_registered\<rparr>, ex_cluster) =
      (Ok (), rs1, R1, ex_started\<lparr>managerInstance := Some m1\<rparr>, ex_cluster) \<and>
    \<not> ContainsFinalizer ref_ext rs1 (ResourceSummaryFinalizer ref_ext) \<and>
    tracks ref_ext m1 ex_summary_ref Resource = {} \<and> summaryMap Resource R1 ex_summary_ref = None)"
proof -
  let ?p = "ex_started\<lparr>managerInstance := Some ex_registered\<rparr>"
  have m: "managerInstance ?p = Some ex_registered" by simp
  have upd: "?p\<lparr>managerInstance := Some m1\<rparr> = ex_started\<lparr>managerInstance := Some m1\<rparr>" for m1 by simp
  have t: "tracks ref_ext ex_registered q t = (if q = ex_summary_ref \<and> t = Resource then {ex_deployment_ref} else {})" for q t
    by (auto simp: tracks_def)
  have s: "summaryMap t ex_synced ex_summary_ref = Some (if t = Resource then [ex_deployment_ref] else [])" for t
    by (cases t) (simp_all add: summaryMap_def ex_synced_def)
  have sync: "synced ref_ext ex_summary_ref (ex_registered, ex_synced)"
    by (simp add: synced_def t map_refs_def s elems_def ref_ext_sel)
  have "ContainsFinalizer ref_ext ex_deleted (ResourceSummaryFinalizer ref_ext)"
    by (simp add: ex_deleted_def ref_ext_sel)
  moreover have "tracks ref_ext ex_registered ex_summary_ref Resource = {ex_deployment_ref}"
    "summaryMap Resource ex_synced ex_summary_ref = Some [ex_deployment_ref]" by (simp_all add: t s)
  ultimately show ?thesis
    using reconcile_delete_forgets [OF ref_patcher.patch_helper_axioms ref_set.libset_axioms ex_deleted_reference m sync, of ex_cluster]
    unfolding upd by blast
qed

text \<open>
  (C37) Marking a resource to be ignored does not stop its tracking. A resource that was tracked and is
  still listed, now with the flag to ignore it, is still tracked after a successful reconciliation:
  it counts as referenced when the resources to unregister are computed.
\<close>

theorem ignored_resource_stays_tracked:
  assumes "libset E" and "GetObjectReference E rs = Ok (q, rs')" and "managerInstance p = Some m"
    and "updateMapsAndResourceSummaryStatus E (rs, R, p, w) = (Ok (), rs1, R1, p1, w1)"
    and "x \<in> set (spec_Resources (rs_Spec rs))" and "res_IgnoreForConfigurationDrift x"
    and "(getObjectRef E x, Resource, q) \<in> tracked E m"
  shows "\<exists>m1. managerInstance p1 = Some m1 \<and> (getObjectRef E x, Resource, q) \<in> tracked E m1"
proof -
  obtain m1 charts where p1: "p1 = p\<lparr>managerInstance := Some m1\<rparr>"
    and "after_type E (current_resources rs charts Resource) q Resource (m, R) (m1, R1)"
    using libset.updateMaps_Ok [OF assms(1-4)] by blast
  moreover have "getObjectRef E x \<in> listed E (current_resources rs charts Resource)"
    using assms(5) by (simp add: listed_def current_resources_def)
  ultimately have "getObjectRef E x \<in> tracks E m1 q Resource"
    using assms(7) by (auto simp: after_type_def tracks_def)
  with p1 show ?thesis by (simp add: tracks_def)
qed

definition ex_ignoring :: resource_summary where
  "ex_ignoring = ex_summary\<lparr>rs_Spec := (rs_Spec ex_summary)\<lparr>
     spec_Resources := [ex_deployment\<lparr>res_IgnoreForConfigurationDrift := True\<rparr>]\<rparr>\<rparr>"

theorem ignored_resource_stays_tracked_witness:
  "\<exists>rs1 R1 p1 m1. updateMapsAndResourceSummaryStatus ref_ext
      (ex_ignoring, ex_synced, ex_started\<lparr>managerInstance := Some ex_registered\<rparr>, ex_cluster) = (Ok (), rs1, R1, p1, ex_cluster) \<and>
    managerInstance p1 = Some m1 \<and> (ex_deployment_ref, Resource, ex_summary_ref) \<in> tracked ref_ext m1"
proof -
  let ?p = "ex_started\<lparr>managerInstance := Some ex_registered\<rparr>" and ?x = "ex_deployment\<lparr>res_IgnoreForConfigurationDrift := True\<rparr>"
  have "\<exists>rs1 R1 p1. updateMapsAndResourceSummaryStatus ref_ext (ex_ignoring, ex_synced, ?p, ex_cluster) = (Ok (), rs1, R1, p1, ex_cluster)"
    by (simp add: ex_ignoring_def ex_synced_def ex_reconciler_def ex_started_def run)
  then obtain rs1 R1 p1 where run1: "updateMapsAndResourceSummaryStatus ref_ext (ex_ignoring, ex_synced, ?p, ex_cluster) =
      (Ok (), rs1, R1, p1, ex_cluster)" by blast
  have ref: "GetObjectReference ref_ext ex_ignoring = Ok (ex_summary_ref, ex_ignoring)"
    by (simp add: ex_ignoring_def run)
  have x: "getObjectRef ref_ext ?x = ex_deployment_ref" by (simp add: run)
  have "?x \<in> set (spec_Resources (rs_Spec ex_ignoring))" by (simp add: ex_ignoring_def)
  from ignored_resource_stays_tracked [OF ref_set.libset_axioms ref _ run1 this] run1 show ?thesis
    by (simp add: x)
qed

text \<open>
  (C38) A registration that fails leaves entries nobody will remove. When the reconciliation of a type
  stops with an error after a first part of the list has been registered, every resource of that
  part is tracked by the manager for the ResourceSummary, while one that was not listed in the
  reconciler's map before is not listed now; deleting the ResourceSummary then succeeds, and leaves
  it tracked.
\<close>

theorem failed_registration_leaks:
  assumes "libset E" and "GetObjectReference E rs = Ok (q, rs')" and "managerInstance p = Some m"
    and "is_ok (fst (registerResources E ys t (rs', p, w)))"
    and "updateMap E (ys @ zs) t (rs, R, p, w) = (Err e, rs1, R1, p1, w1)"
    and "r \<in> wanted E ys" and "r \<notin> map_refs E R q t"
  shows "\<exists>m1. managerInstance p1 = Some m1 \<and> r \<in> tracks E m1 q t \<and> r \<notin> map_refs E R1 q t \<and>
    (\<exists>rs2 R2 m2. reconcileDelete E (rs1, R1, p1, w2) = (Ok (), rs2, R2, p1\<lparr>managerInstance := Some m2\<rparr>, w2) \<and>
       r \<in> tracks E m2 q t)"
proof -
  obtain m1 where p1: "p1 = p\<lparr>managerInstance := Some m1\<rparr>" and R1: "R1 = R" and same: "same_object E q rs rs1"
    using libset.updateMap_failed [OF assms(1-3,5)] by auto
  have tr: "r \<in> tracks E m1 q t"
    using libset.updateMap_prefix [OF assms(1-5)] assms(6) by (auto simp: p1)
  from same obtain rs3 where ref: "GetObjectReference E rs1 = Ok (q, rs3)" by (auto simp: same_object_def)
  have m1: "managerInstance p1 = Some m1" by (simp add: p1)
  obtain R2 m2 where "cleanMaps E (rs1, R1, p1, w2) = (Ok (), rs3, R2, p1\<lparr>managerInstance := Some m2\<rparr>, w2)"
    and "tracks E m2 q t = tracks E m1 q t - map_refs E R1 q t"
    using libset.cleanMaps_Ok [OF assms(1) ref m1, of R1 w2] by metis
  with assms(7) R1 tr m1 show ?thesis by (auto simp: reconcileDelete_def)
qed

text \<open>A cluster in which the ConfigMap cannot be read.\<close>

definition ex_unreadable :: "(objref list, ref_cluster, ref_value) ext" where
  "ex_unreadable = ref_ext\<lparr>dr_Get := (\<lambda>g ns n w. if gvk_Kind g = ''ConfigMap'' then (Err (GoErr CForbidden ''forbidden''), w)
     else ref_dr_Get g ns n w)\<rparr>"

lemma ex_unreadable_set: "libset ex_unreadable"
  by unfold_locales (auto simp: ex_unreadable_def ref_ext_def elems_def)

theorem failed_registration_leaks_witness:
  "\<exists>rs1 R1 p1 rs2 R2 m2. updateMap ex_unreadable [ex_deployment, ex_configmap] Resource
      (ex_summary, ex_reconciler, ex_started, ex_cluster) = (Err (GoErr CForbidden ''forbidden''), rs1, R1, p1, ex_cluster) \<and>
    reconcileDelete ex_unreadable (rs1, R1, p1, ex_cluster) = (Ok (), rs2, R2, p1\<lparr>managerInstance := Some m2\<rparr>, ex_cluster) \<and>
    ex_deployment_ref \<in> tracks ex_unreadable m2 ex_summary_ref Resource"
proof -
  have ref: "GetObjectReference ex_unreadable ex_summary = Ok (ex_summary_ref, ex_summary)"
    by (simp add: ex_unreadable_def run)
  have first: "is_ok (fst (registerResources ex_unreadable [ex_deployment] Resource (ex_summary, ex_started, ex_cluster)))"
    by (simp add: ex_unreadable_def ex_started_def ex_manager_def run)
  have "\<exists>R1 p1. updateMap ex_unreadable ([ex_deployment] @ [ex_configmap]) Resource
      (ex_summary, ex_reconciler, ex_started, ex_cluster) = (Err (GoErr CForbidden ''forbidden''), ex_summary, R1, p1, ex_cluster)"
    by (simp add: ex_unreadable_def ex_started_def ex_reconciler_def ex_manager_def run)
  then obtain R1 p1 where run1: "updateMap ex_unreadable ([ex_deployment] @ [ex_configmap]) Resource
      (ex_summary, ex_reconciler, ex_started, ex_cluster) = (Err (GoErr CForbidden ''forbidden''), ex_summary, R1, p1, ex_cluster)"
    by blast
  have "getObjectRef ex_unreadable ex_deployment = ex_deployment_ref" by (simp add: ex_unreadable_def run)
  then have "ex_deployment_ref \<in> wanted ex_unreadable [ex_deployment]"
    by (simp add: wanted_def) (simp add: ex_deployment_def)
  from failed_registration_leaks [OF ex_unreadable_set ref ex_started_manager first run1 this, of ex_cluster] run1
  show ?thesis by (simp add: map_refs_def summaryMap_def ex_reconciler_def) blast
qed

text \<open>
  (C39) After a restart the reconciler's maps are empty while the manager's are rebuilt: deleting a
  ResourceSummary that has not been reconciled since succeeds, removes its finalizer and unregisters
  nothing, so that its resources stay tracked for a ResourceSummary that is gone.
\<close>

theorem delete_after_restart_leaks:
  assumes "patch_helper E summaries kind" and "libset E" and "GetObjectReference E rs = Ok (q, rs')"
    and "managerInstance p = Some m" and "\<forall>t. summaryMap t R q = None"
  shows "\<exists>rs1 R1 m1. reconcileDelete E (rs, R, p, w) = (Ok (), rs1, R1, p\<lparr>managerInstance := Some m1\<rparr>, w) \<and>
    \<not> ContainsFinalizer E rs1 (ResourceSummaryFinalizer E) \<and> tracked E m1 = tracked E m"
proof -
  obtain rs1 R1 m1 where del: "reconcileDelete E (rs, R, p, w) = (Ok (), rs1, R1, p\<lparr>managerInstance := Some m1\<rparr>, w)"
    "\<not> ContainsFinalizer E rs1 (ResourceSummaryFinalizer E)"
    and T: "\<forall>q' t. tracks E m1 q' t = (if q' = q then tracks E m q t - map_refs E R q t else tracks E m q' t)"
    and "\<forall>t. summaryMap t R1 = (summaryMap t R)(q := None)"
    by (rule libset.reconcileDelete_Ok [OF assms(2,1,3,4), of R w])
  have "tracks E m1 q' t = tracks E m q' t" for q' t using T assms(5) by (simp add: map_refs_def)
  then have "tracked E m1 = tracked E m" by (auto simp: tracks_def)
  with del show ?thesis by blast
qed

theorem delete_after_restart_leaks_witness:
  "ContainsFinalizer ref_ext ex_deleted (ResourceSummaryFinalizer ref_ext) \<and>
   (\<exists>rs1 R1 m1. reconcileDelete ref_ext (ex_deleted, ex_reconciler, ex_started\<lparr>managerInstance := Some ex_restarted\<rparr>, ex_cluster) =
     (Ok (), rs1, R1, ex_started\<lparr>managerInstance := Some m1\<rparr>, ex_cluster) \<and>
   \<not> ContainsFinalizer ref_ext rs1 (ResourceSummaryFinalizer ref_ext) \<and>
   (ex_deployment_ref, HelmResource, ex_summary_ref) \<in> tracked ref_ext m1)"
proof -
  have none: "\<forall>t. summaryMap t ex_reconciler ex_summary_ref = None"
    by (simp add: summaryMap_def ex_reconciler_def split: rtype.split)
  have "(ex_deployment_ref, HelmResource, ex_summary_ref) \<in> tracked ref_ext ex_restarted"
    by (simp add: tracked_def typeMap_def elems_def ex_restarted_def ref_ext_sel)
  moreover have "ContainsFinalizer ref_ext ex_deleted (ResourceSummaryFinalizer ref_ext)"
    by (simp add: ex_deleted_def ref_ext_sel)
  ultimately show ?thesis
    using delete_after_restart_leaks [OF ref_patcher.patch_helper_axioms ref_set.libset_axioms ex_deleted_reference _ none,
        of "ex_started\<lparr>managerInstance := Some ex_restarted\<rparr>" ex_restarted ex_cluster] by auto
qed

section \<open>The recorded hashes, the charts and the finalizer\<close>

text \<open>A hash is never changed by a registration once it is there.\<close>

lemma register_loop_hashes_kept:
  "register_loop ref (\<lambda>r. RegisterResource E r t) xs hs (rs, m, w) = (x, rs1, m1, w1) \<Longrightarrow>
    resourceHashes m r = Some h \<Longrightarrow> resourceHashes m1 r = Some h"
proof (induction xs arbitrary: rs m w hs)
  case (Cons y ys)
  obtain z rs2 m2 w2 where z: "RegisterResource E (ref y) t (rs, m, w) = (z, rs2, m2, w2)" using prod_cases4 by blast
  then have "resourceHashes m2 r = Some h" using RegisterResource_hashes [OF z, of r] Cons.prems(2) by (auto split: if_splits)
  with Cons z show ?case by (cases z) (auto split: if_splits)
qed simp

text \<open>What the registrations of a list return, in order: the specification of what is recorded.\<close>

fun registration_trace ::
  "('s, 'w, 'v) ext \<Rightarrow> rtype \<Rightarrow> resource list \<Rightarrow> resource_summary \<times> 's manager \<times> 'w \<Rightarrow> (resource \<times> bytes outcome) list" where
  "registration_trace E t [] st = []"
| "registration_trace E t (x # xs) st =
     (if res_IgnoreForConfigurationDrift x then registration_trace E t xs st
      else (case RegisterResource E (getObjectRef E x) t st of (y, st1) \<Rightarrow> (x, y) # registration_trace E t xs st1))"

lemma map_fst_registration_trace:
  "map fst (registration_trace E t xs st) = filter (\<lambda>x. \<not> res_IgnoreForConfigurationDrift x) xs"
  by (induction xs arbitrary: st) (auto split: prod.split)

definition recorded :: "('s, 'w, 'v) ext \<Rightarrow> 's manager \<Rightarrow> resource \<times> bytes outcome \<Rightarrow> resource_hash \<Rightarrow> bool" where
  "recorded E m = (\<lambda>(x, y) rh. rh_Resource rh = x \<and> (case y of
     Ok h \<Rightarrow> rh_Hash rh = sprintf_x h \<and> resourceHashes m (getObjectRef E x) = Some h
   | Err e \<Rightarrow> IsNotFound e \<and> rh_Hash rh = []
   | Panic \<Rightarrow> False))"

lemma register_loop_records:
  "register_loop (getObjectRef E) (\<lambda>r. RegisterResource E r t) xs hs (rs, m, w) = (Ok rhs, rs1, m1, w1) \<Longrightarrow>
    \<exists>new. rhs = hs @ new \<and> list_all2 (recorded E m1) (registration_trace E t xs (rs, m, w)) new"
proof (induction xs arbitrary: rs m w hs)
  case (Cons y ys)
  show ?case
  proof (cases "res_IgnoreForConfigurationDrift y")
    case True
    then show ?thesis using Cons by simp
  next
    case False
    obtain z rs2 m2 w2 where z: "RegisterResource E (getObjectRef E y) t (rs, m, w) = (z, rs2, m2, w2)" using prod_cases4 by blast
    define rh where "rh = \<lparr>rh_Resource = y, rh_Hash = (case z of Ok h \<Rightarrow> sprintf_x h | _ \<Rightarrow> [])\<rparr>"
    have rest: "register_loop (getObjectRef E) (\<lambda>r. RegisterResource E r t) ys (hs @ [rh]) (rs2, m2, w2) = (Ok rhs, rs1, m1, w1)"
      using Cons.prems z False by (cases z) (auto simp: rh_def sprintf_x_def bytes_of_string_def split: if_splits)
    have "recorded E m1 (y, z) rh"
      using Cons.prems z False register_loop_hashes_kept [OF rest, of "getObjectRef E y"] RegisterResource_Ok_hash [of E "getObjectRef E y" t rs m w]
      by (cases z) (auto simp: recorded_def rh_def split: if_splits)
    with Cons.IH [OF rest] False z show ?thesis by auto
  qed
qed simp

text \<open>
  (C19) What a reconciliation records: one entry for every resource of the type that is not ignored, in
  the order of the spec, following the results of the registrations. Where the registration returned a
  hash, the entry is its hexadecimal digits and the manager has that hash afterwards; where it did not,
  the error said that something was not found, and the entry is the empty text.
\<close>

theorem status_records_hashes:
  assumes "managerInstance p = Some m" and "registerResources E xs t (rs, p, w) = (Ok rhs, rs1, p1, w1)"
  shows "\<exists>m1. managerInstance p1 = Some m1 \<and>
    map rh_Resource rhs = filter (\<lambda>x. \<not> res_IgnoreForConfigurationDrift x) xs \<and>
    list_all2 (\<lambda>(x, y) rh. rh_Resource rh = x \<and> (case y of
        Ok h \<Rightarrow> rh_Hash rh = sprintf_x h \<and> resourceHashes m1 (getObjectRef E x) = Some h
      | Err e \<Rightarrow> IsNotFound e \<and> rh_Hash rh = []
      | Panic \<Rightarrow> False)) (registration_trace E t xs (rs, m, w)) rhs"
proof -
  obtain m1 where loop: "register_loop (getObjectRef E) (\<lambda>r. RegisterResource E r t) xs [] (rs, m, w) = (Ok rhs, rs1, m1, w1)"
    and "p1 = p\<lparr>managerInstance := Some m1\<rparr>"
    using assms by (auto simp: registerResources_def GetManager_def split: prod.splits)
  moreover from register_loop_records [OF loop]
  have all: "list_all2 (recorded E m1) (registration_trace E t xs (rs, m, w)) rhs" by simp
  moreover from all have "map fst (registration_trace E t xs (rs, m, w)) = map rh_Resource rhs"
    by (rule list_all2_induct) (auto simp: recorded_def)
  ultimately show ?thesis by (simp add: map_fst_registration_trace recorded_def)
qed

theorem status_records_hashes_witness:
  "\<exists>p1 m1. registerResources ref_ext [ex_deployment, ex_configmap] Resource (ex_summary, ex_started, ex_cluster) =
      (Ok [\<lparr>rh_Resource = ex_deployment, rh_Hash = sprintf_x (Some ex_hash)\<rparr>, \<lparr>rh_Resource = ex_configmap, rh_Hash = []\<rparr>],
       ex_summary, p1, ex_cluster) \<and> managerInstance p1 = Some m1 \<and>
    resourceHashes m1 ex_deployment_ref = Some (Some ex_hash)"
proof -
  have "\<exists>rhs p1. registerResources ref_ext [ex_deployment, ex_configmap] Resource (ex_summary, ex_started, ex_cluster) =
      (Ok rhs, ex_summary, p1, ex_cluster)"
    by (simp add: ex_started_def ex_manager_def run)
  then obtain rhs p1 where run1: "registerResources ref_ext [ex_deployment, ex_configmap] Resource
      (ex_summary, ex_started, ex_cluster) = (Ok rhs, ex_summary, p1, ex_cluster)" by blast
  have "\<exists>st. RegisterResource ref_ext (getObjectRef ref_ext ex_configmap) Resource (ex_summary, ex_registered, ex_cluster) = (Err not_found, st)"
    by (simp add: ex_registered_def ex_manager_def run)
  then have trace: "registration_trace ref_ext Resource [ex_deployment, ex_configmap] (ex_summary, ex_manager, ex_cluster) =
      [(ex_deployment, Ok (Some ex_hash)), (ex_configmap, Err not_found)]"
    by (auto simp: ex_getObjectRef ex_register) (simp_all add: ex_deployment_def ex_configmap_def)
  from status_records_hashes [OF ex_started_manager run1] run1 show ?thesis
    unfolding trace by (auto simp: list_all2_Cons1 ex_getObjectRef)
qed

text \<open>
  What may become of a resource of a chart in a release's namespace: one that has a namespace is as it
  is; for another one the mapper has answered, and the answer says whether it gets the namespace.
\<close>

definition chart_resource :: "('s, 'w, 'v) ext \<Rightarrow> string \<times> resource \<Rightarrow> resource \<Rightarrow> bool" where
  "chart_resource E = (\<lambda>(ns, x) y.
     if res_Namespace x \<noteq> [] then y = x
     else (\<exists>w mapping w'. deferred_RESTMapping E
          \<lparr>gvk_Group = res_Group x, gvk_Version = res_Version x, gvk_Kind = res_Kind x\<rparr> w = (Ok mapping, w') \<and>
        y = (if mapping_Namespaced mapping then x\<lparr>res_Namespace := ns\<rparr> else x)))"

lemma setNamespaces_chart_resource:
  "setNamespaces E ns xs (R, w) = (Ok ys, R1, w1) \<Longrightarrow> list_all2 (chart_resource E) (map (Pair ns) xs) ys"
proof (induction xs arbitrary: R w ys)
  case (Cons x xs)
  show ?case
  proof (cases "res_Namespace x = []")
    case False
    then obtain zs where "setNamespaces E ns xs (R, w) = (Ok zs, R1, w1)" and "ys = x # zs"
      using Cons.prems by auto
    with Cons.IH False show ?thesis by (simp add: chart_resource_def)
  next
    case True
    let ?g = "\<lparr>gvk_Group = res_Group x, gvk_Version = res_Version x, gvk_Kind = res_Kind x\<rparr>"
    from Cons.prems True obtain R2 w2 where mapper: "getRESTMapper E (R, w) = (Ok (), R2, w2)" by (auto simp: Let_def)
    obtain z w3 where z: "deferred_RESTMapping E ?g w2 = (z, w3)" by fastforce
    from Cons.prems True mapper z obtain mapping zs where "z = Ok mapping" and "setNamespaces E ns xs (R2, w3) = (Ok zs, R1, w1)"
      and "ys = (if mapping_Namespaced mapping then x\<lparr>res_Namespace := ns\<rparr> else x) # zs"
      by (cases z) (auto simp: Let_def)
    moreover from this z True have "chart_resource E (ns, x) (if mapping_Namespaced mapping then x\<lparr>res_Namespace := ns\<rparr> else x)"
      by (auto simp: chart_resource_def)
    ultimately show ?thesis using Cons.IH by simp
  qed
qed simp

lemma getHelmResources_loop_chart_resource:
  "getHelmResources_loop E cs found (R, w) = (Ok ys, R1, w1) \<Longrightarrow>
    \<exists>zs. ys = found @ zs \<and>
      list_all2 (chart_resource E) (concat (map (\<lambda>c. map (Pair (hr_ReleaseNamespace c)) (hr_Resources c)) cs)) zs"
proof (induction cs arbitrary: found R w)
  case (Cons c cs)
  then obtain zs R2 w2 where one: "getChartResource E c (R, w) = (Ok zs, R2, w2)"
    and rest: "getHelmResources_loop E cs (found @ zs) (R2, w2) = (Ok ys, R1, w1)" by auto
  then have "list_all2 (chart_resource E) (map (Pair (hr_ReleaseNamespace c)) (hr_Resources c)) zs"
    unfolding getChartResource_def by (intro setNamespaces_chart_resource)
  with Cons.IH [OF rest] show ?case by (auto intro: list_all2_appendI)
qed simp

text \<open>
  (C20) The resources of the charts: every resource of every chart, in order. One that has a namespace is
  taken as it is; for one without, the mapper was asked for the kind and has answered, and it gets the
  namespace of its release exactly when the answer says that the kind is namespaced. So a kind that the
  mapper never knows makes the whole collection fail.
\<close>

theorem charts_get_namespaces:
  assumes "getHelmResources E rs (R, w) = (Ok ys, R1, w1)"
    and "xs = concat (map (\<lambda>c. map (Pair (hr_ReleaseNamespace c)) (hr_Resources c)) (spec_ChartResources (rs_Spec rs)))"
  shows "list_all2 (\<lambda>(ns, x) y.
     if res_Namespace x \<noteq> [] then y = x
     else (\<exists>w mapping w'. deferred_RESTMapping E
          \<lparr>gvk_Group = res_Group x, gvk_Version = res_Version x, gvk_Kind = res_Kind x\<rparr> w = (Ok mapping, w') \<and>
        y = (if mapping_Namespaced mapping then x\<lparr>res_Namespace := ns\<rparr> else x))) xs ys"
  using getHelmResources_loop_chart_resource [of E "spec_ChartResources (rs_Spec rs)" "[]" R w ys R1 w1] assms
  by (simp add: getHelmResources_def chart_resource_def)

definition ex_charts :: resource_summary where
  "ex_charts = ex_summary\<lparr>rs_Spec := (rs_Spec ex_summary)\<lparr>spec_ChartResources :=
     [\<lparr>hr_ReleaseNamespace = ''monitoring'', hr_Resources = [ex_configmap, ex_deployment]\<rparr>]\<rparr>\<rparr>"

theorem charts_get_namespaces_witness:
  "\<exists>R1. getHelmResources ref_ext ex_charts (ex_reconciler, ex_cluster) =
     (Ok [ex_configmap\<lparr>res_Namespace := ''monitoring''\<rparr>, ex_deployment], R1, ex_cluster)"
proof -
  have "\<exists>ys R1. getHelmResources ref_ext ex_charts (ex_reconciler, ex_cluster) = (Ok ys, R1, ex_cluster)"
    by (simp add: getHelmResources_def getChartResource_def getRESTMapper_def ex_charts_def ex_reconciler_def run)
  then obtain ys R1 where run1: "getHelmResources ref_ext ex_charts (ex_reconciler, ex_cluster) = (Ok ys, R1, ex_cluster)"
    by blast
  have charts: "spec_ChartResources (rs_Spec ex_charts) =
      [\<lparr>hr_ReleaseNamespace = ''monitoring'', hr_Resources = [ex_configmap, ex_deployment]\<rparr>]"
    by (simp add: ex_charts_def)
  have "res_Namespace ex_configmap = []" "res_Namespace ex_deployment \<noteq> []"
    by (simp_all add: ex_configmap_def ex_deployment_def)
  with charts_get_namespaces [OF run1 refl]
  have "ys = [ex_configmap\<lparr>res_Namespace := ''monitoring''\<rparr>, ex_deployment]"
    by (auto simp: charts ref_ext_sel list_all2_Cons1)
  with run1 show ?thesis by blast
qed

text \<open>
  Adding the finalizer writes nothing to the API server. The patch helper is created after the
  finalizer has been added to the object, so the difference it sends is empty: resources are
  registered before the finalizer is stored, which happens when the reconciliation ends.
\<close>

lemma add_finalizer_writes_nothing:
  assumes "patch_helper E summaries kind" and "addFinalizer E (rs, w) = (Ok (), rs1, w1)"
  shows "summaries w1 = summaries w"
proof -
  let ?rs = "AddFinalizer E rs (ResourceSummaryFinalizer E)"
  obtain x w2 where h: "patch_NewHelper E ?rs w = (x, w2)" by fastforce
  moreover obtain y rs2 w3 where "patch_Patch E ?rs ?rs w2 = ((y, rs2), w3)" by (metis prod.exhaust)
  moreover from this have "summaries w3 = summaries w2" by (rule patch_helper.patch_same [OF assms(1)])
  moreover have "summaries w2 = summaries w" by (rule patch_helper.helper_keeps [OF assms(1) h])
  ultimately show ?thesis using assms(2) by (cases x; cases y) (auto simp: addFinalizer_def)
qed

lemma add_finalizer_writes_nothing_example:
  "\<exists>rs1 w1. addFinalizer ref_ext (ex_summary, ex_cluster) = (Ok (), rs1, w1) \<and>
     rs_Finalizers rs1 \<noteq> [] \<and> ref_summaries w1 = ref_summaries ex_cluster"
proof -
  have "\<exists>rs1 w1. addFinalizer ref_ext (ex_summary, ex_cluster) = (Ok (), rs1, w1) \<and> rs_Finalizers rs1 \<noteq> []"
    by (simp add: addFinalizer_def run)
  then show ?thesis using add_finalizer_writes_nothing [OF ref_patcher.patch_helper_axioms] by blast
qed

end
