(* ===== verification/Goroutine.thy ===== *)
theory Goroutine
  imports Evaluation
begin

text \<open>
  The evaluation goroutine as a machine whose steps are what it does between two moments at which
  others may run: a region under the manager's lock, or a call that reaches the cluster. A pass over the
  queue, run without interference, is \<open>evaluateQueue\<close>; run with interference, it still ends.
\<close>

section \<open>The machine\<close>

text \<open>
  Where \<open>evaluateResource\<close> is: before reading the stored hash, before fetching the resource, before
  collecting the ResourceSummaries that may patch it, in the loop that fetches their patches, before
  storing the new hash, in the loop over the resource types of \<open>requestReconciliations\<close>, in its inner loop
  (with what is left of the slice, and the slice), between reading a ResourceSummary and updating its
  status, and at the end.
\<close>

datatype 'v eval_pc =
    Started objref
  | Fetch objref bytes
  | Gather objref bytes "'v unstructured"
  | Patches objref bytes "'v unstructured" "objref list" "patch list"
  | Store objref bytes
  | Types objref bytes "objref list" "rtype list"
  | Requests objref bytes rtype "objref list" "objref list" "rtype list"
  | Update objref bytes rtype resource_summary "objref list" "objref list" "rtype list"
  | Done "unit outcome"

type_synonym ('s, 'w, 'v) eval_state = "'v eval_pc \<times> 's manager \<times> 'w"

fun eval_step :: "('s, 'w, 'v) ext \<Rightarrow> ('s, 'w, 'v) eval_state \<Rightarrow> ('s, 'w, 'v) eval_state option" where
  "eval_step E (Started r, m, w) =
     Some (case resourceHashes m r of None \<Rightarrow> Done (Ok ()) | Some hash \<Rightarrow> Fetch r hash, m, w)"
| "eval_step E (Fetch r hash, m, w) = Some (case getUnstructured E r w of
       (Err e, w1) \<Rightarrow>
         (if IsNotFound e then Store r None else if IsNoKindMatch e then Store r None else Done (Err e), m, w1)
     | (Panic, w1) \<Rightarrow> (Done Panic, m, w1)
     | (Ok u, w1) \<Rightarrow> (Gather r hash u, m, w1))"
| "eval_step E (Gather r hash u, m, w) =
     Some (Patches r hash u (set_Items E (getResourceSummaries E r m)) [], m, w)"
| "eval_step E (Patches r hash u (q # qs) patches, m, w) = Some (case client_Get E (ref_Namespace q) (ref_Name q) w of
       (Err e, w1) \<Rightarrow> (if IsNotFound e then Patches r hash u qs patches else Done (Err e), m, w1)
     | (Panic, w1) \<Rightarrow> (Done Panic, m, w1)
     | (Ok rs, w1) \<Rightarrow> (Patches r hash u qs (patches @ spec_Patches (rs_Spec rs)), m, w1))"
| "eval_step E (Patches r hash u [] patches, m, w) = Some (case unstructuredHash E u patches of
       Ok currentHash \<Rightarrow>
         (if \<not> reflect_DeepEqual (GoBytes hash) (GoBytes currentHash) then Store r currentHash else Done (Ok ()))
     | Err e \<Rightarrow> Done (Err e)
     | Panic \<Rightarrow> Done Panic, m, w)"
| "eval_step E (Store r h, m, w) =
     Some (Types r h [] [Resource, HelmResource, KustomizeResource], updateResourceHash r h m, w)"
| "eval_step E (Types r h resourceSummaries [], m, w) = Some (Done (Ok ()), m, w)"
| "eval_step E (Types r h resourceSummaries (t # ts), m, w) = Some (case typeMap t m r of
       None \<Rightarrow> Types r h resourceSummaries ts
     | Some rsList \<Rightarrow> Requests r h t (resourceSummaries @ set_Items E rsList) (resourceSummaries @ set_Items E rsList) ts, m, w)"
| "eval_step E (Requests r h t [] resourceSummaries ts, m, w) = Some (Types r h resourceSummaries ts, m, w)"
| "eval_step E (Requests r h t (q # qs) resourceSummaries ts, m, w) = Some (case getUnstructured E q w of
       (Err e, w1) \<Rightarrow> (if IsNotFound e then Requests r h t qs resourceSummaries ts else Done (Err e), m, w1)
     | (Panic, w1) \<Rightarrow> (Done Panic, m, w1)
     | (Ok u, w1) \<Rightarrow> (case FromUnstructured E u of
           Ok rs \<Rightarrow> Update r h t (rs\<lparr>rs_Status := markForReconciliation E r h t (rs_Status rs)\<rparr>) qs resourceSummaries ts
         | Err e \<Rightarrow> Done (Err e)
         | Panic \<Rightarrow> Done Panic, m, w1))"
| "eval_step E (Update r h t rs qs resourceSummaries ts, m, w) = Some (case Status_Update E rs w of
       (Ok _, w1) \<Rightarrow> (Requests r h t qs resourceSummaries ts, m, w1)
     | (Err e, w1) \<Rightarrow> (Done (Err e), m, w1)
     | (Panic, w1) \<Rightarrow> (Done Panic, m, w1))"
| "eval_step E (Done x, m, w) = None"

text \<open>
  Where a pass is: before taking the queue, between two evaluations (with the resources to come and
  those that failed), in an evaluation, queueing the failed ones again, at the end.
\<close>

datatype ('s, 'v) pass_pc =
    Sleeping
  | Next "objref list" 's
  | Evaluating objref "'v eval_pc" "objref list" 's
  | Requeue "objref list"
  | Finished
  | Crashed

type_synonym ('s, 'w, 'v) pass_state = "('s, 'v) pass_pc \<times> 's manager \<times> 'w"

fun pass_step :: "('s, 'w, 'v) ext \<Rightarrow> ('s, 'w, 'v) pass_state \<Rightarrow> ('s, 'w, 'v) pass_state option" where
  "pass_step E (Sleeping, m, w) = Some (Next (set_Items E (jobQueue m)) (set_new E), m\<lparr>jobQueue := set_new E\<rparr>, w)"
| "pass_step E (Next (r # rs) failed, m, w) = Some (Evaluating r (Started r) rs failed, m, w)"
| "pass_step E (Next [] failed, m, w) = Some (Requeue (set_Items E failed), m, w)"
| "pass_step E (Evaluating r pc rs failed, m, w) = (case pc of
       Done x \<Rightarrow> Some (case x of
           Ok _ \<Rightarrow> Next rs failed
         | Err e \<Rightarrow> Next rs (set_Insert E r failed)
         | Panic \<Rightarrow> Crashed, m, w)
     | _ \<Rightarrow> map_option (\<lambda>(pc', mw'). (Evaluating r pc' rs failed, mw')) (eval_step E (pc, m, w)))"
| "pass_step E (Requeue (r # rs), m, w) = Some (Requeue rs, checkForConfigurationDrift E r m, w)"
| "pass_step E (Requeue [], m, w) = Some (Finished, m, w)"
| "pass_step E (Finished, m, w) = None"
| "pass_step E (Crashed, m, w) = None"

section \<open>Runs of a machine\<close>

text \<open>A partial function as a step relation: its runs, and that they end in one state at most.\<close>

definition runs :: "('a \<Rightarrow> 'a option) \<Rightarrow> 'a \<Rightarrow> 'a \<Rightarrow> bool" where
  "runs f = rtranclp (\<lambda>s s'. f s = Some s')"

lemma runs_refl [simp, intro]: "runs f s s"
  by (simp add: runs_def)

lemma runs_step: "f s = Some s1 \<Longrightarrow> runs f s1 s2 \<Longrightarrow> runs f s s2"
  unfolding runs_def by (rule converse_rtranclp_into_rtranclp)

lemma runs_via: "(case f s of None \<Rightarrow> False | Some s1 \<Rightarrow> runs f s1 s2) \<Longrightarrow> runs f s s2"
  by (auto intro: runs_step split: option.splits)

lemma runs_trans: "runs f s s1 \<Longrightarrow> runs f s1 s2 \<Longrightarrow> runs f s s2"
  unfolding runs_def by (rule rtranclp_trans)

lemma runs_induct [consumes 1, case_names refl step]:
  assumes "runs f s s'" and "\<And>s. P s s" and "\<And>s s1 s'. f s = Some s1 \<Longrightarrow> runs f s1 s' \<Longrightarrow> P s1 s' \<Longrightarrow> P s s'"
  shows "P s s'"
  using assms unfolding runs_def by (induction rule: converse_rtranclp_induct) auto

lemma runs_final_unique:
  "runs f s a \<Longrightarrow> runs f s b \<Longrightarrow> f a = None \<Longrightarrow> f b = None \<Longrightarrow> a = b"
proof (induction rule: runs_induct)
  case (refl s)
  then show ?case by (auto simp: runs_def elim: converse_rtranclpE)
next
  case (step s s1 s')
  from step.prems(1) have "s = b \<or> (\<exists>s2. f s = Some s2 \<and> runs f s2 b)"
    unfolding runs_def by (auto elim: converse_rtranclpE)
  with step show ?case by auto
qed

text \<open>A run of one machine inside another one.\<close>

lemma runs_lift:
  assumes "runs f s s'" and "\<And>s s1. f s = Some s1 \<Longrightarrow> g (h s) = Some (h s1)"
  shows "runs g (h s) (h s')"
  using assms(1)
proof (induction rule: runs_induct)
  case (step s s1 s')
  then show ?case using assms(2) runs_step by metis
qed simp

section \<open>An evaluation without interference\<close>

lemma patches_runs:
  "getPatches_loop E qs ps w = (x, w') \<Longrightarrow>
   runs (eval_step E) (Patches r h u qs ps, m, w)
     (case x of Ok ps' \<Rightarrow> Patches r h u [] ps' | Err e \<Rightarrow> Done (Err e) | Panic \<Rightarrow> Done Panic, m, w')"
proof (induction qs arbitrary: ps w)
  case (Cons q qs)
  obtain y w1 where y: "client_Get E (ref_Namespace q) (ref_Name q) w = (y, w1)" by fastforce
  show ?case by (rule runs_via, cases y) (use Cons y in \<open>auto split: if_splits\<close>)
qed auto

lemma request_runs:
  assumes "requestReconciliationForResourceSummary E q r h t w = (x, w')"
  shows "runs (eval_step E) (Requests r h t (q # qs) sums ts, m, w)
    (case x of Ok _ \<Rightarrow> Requests r h t qs sums ts | Err e \<Rightarrow> Done (Err e) | Panic \<Rightarrow> Done Panic, m, w')"
proof -
  obtain y w1 where y: "getUnstructured E q w = (y, w1)" by fastforce
  show ?thesis
  proof (cases y)
    case (Ok u)
    show ?thesis
    proof (cases "FromUnstructured E u")
      case (Ok rs)
      let ?rs = "rs\<lparr>rs_Status := markForReconciliation E r h t (rs_Status rs)\<rparr>"
      have "Status_Update E ?rs w1 = (x, w')"
        using assms y \<open>y = Ok u\<close> Ok by (simp add: requestReconciliationForResourceSummary_def)
      then have "runs (eval_step E) (Update r h t ?rs qs sums ts, m, w1)
          (case x of Ok _ \<Rightarrow> Requests r h t qs sums ts | Err e \<Rightarrow> Done (Err e) | Panic \<Rightarrow> Done Panic, m, w')"
        by (intro runs_step [OF _ runs_refl]) (auto split: outcome.split)
      then show ?thesis by (rule runs_step [rotated]) (simp add: y \<open>y = Ok u\<close> Ok)
    qed (use assms y Ok in \<open>auto simp: requestReconciliationForResourceSummary_def intro!: runs_step [OF _ runs_refl]\<close>)
  qed (use assms y in \<open>auto simp: requestReconciliationForResourceSummary_def intro!: runs_step [OF _ runs_refl] split: if_splits\<close>)
qed

lemma request_each_runs:
  "request_each E r h t qs w = (x, w') \<Longrightarrow>
   runs (eval_step E) (Requests r h t qs sums ts, m, w)
     (case x of Ok _ \<Rightarrow> Requests r h t [] sums ts | Err e \<Rightarrow> Done (Err e) | Panic \<Rightarrow> Done Panic, m, w')"
proof (induction qs arbitrary: w)
  case (Cons q qs)
  obtain y w1 where y: "requestReconciliationForResourceSummary E q r h t w = (y, w1)" by fastforce
  note first = request_runs [OF y, of qs sums ts m]
  from Cons y first show ?case by (cases y) (auto intro: runs_trans)
qed auto

lemma types_runs:
  "requestReconciliations_loop E r h m sums ts w = (x, w') \<Longrightarrow> runs (eval_step E) (Types r h sums ts, m, w) (Done x, m, w')"
proof (induction ts arbitrary: sums w)
  case Nil
  show ?case by (rule runs_via) (use Nil in simp)
next
  case (Cons t ts)
  show ?case
  proof (cases "typeMap t m r")
    case None
    show ?thesis by (rule runs_via) (use Cons None in simp)
  next
    case (Some s)
    let ?sums = "sums @ set_Items E s"
    obtain y w1 where y: "request_each E r h t ?sums w = (y, w1)" by fastforce
    have "runs (eval_step E) (Types r h sums (t # ts), m, w) (Requests r h t ?sums ?sums ts, m, w)"
      by (rule runs_step [OF _ runs_refl]) (simp add: Some)
    note first = runs_trans [OF this request_each_runs [OF y]]
    show ?thesis
    proof (cases y)
      case (Ok a)
      have "runs (eval_step E) (Requests r h t [] ?sums ts, m, w1) (Done x, m, w')"
        by (rule runs_via) (use Cons Some y Ok in \<open>simp add: Let_def\<close>)
      with first Ok show ?thesis by (auto intro: runs_trans)
    qed (use first Cons.prems Some y in \<open>auto simp: Let_def\<close>)
  qed
qed

lemma store_runs:
  assumes "report_drift E r h (m, w) = (x, m', w')"
  shows "runs (eval_step E) (Store r h, m, w) (Done x, m', w')"
proof -
  have "runs (eval_step E) (Types r h [] [Resource, HelmResource, KustomizeResource], updateResourceHash r h m, w) (Done x, m', w')"
    using assms types_runs [of E r h "updateResourceHash r h m" "[]"] by (auto simp: report_drift_result requestReconciliations_def)
  then show ?thesis by (rule runs_step [rotated]) simp
qed

text \<open>Each way an evaluation can go is a run.\<close>

lemma evaluateResource_runs:
  assumes "evaluateResource E r (m, w) = (x, m', w')"
  shows "runs (eval_step E) (Started r, m, w) (Done x, m', w')"
proof (cases "resourceHashes m r")
  case None
  show ?thesis by (rule runs_via) (use assms None in \<open>simp add: evaluateResource_def\<close>)
next
  case (Some h)
  obtain y w1 where y: "getUnstructured E r w = (y, w1)" by fastforce
  have start: "runs (eval_step E) (Started r, m, w) (Fetch r h, m, w)"
    by (rule runs_step [OF _ runs_refl]) (simp add: Some)
  show ?thesis
  proof (cases y)
    case (Ok u)
    obtain z w2 where z: "getPatches E r m w1 = (z, w2)" by fastforce
    have "runs (eval_step E) (Fetch r h, m, w) (Patches r h u (set_Items E (getResourceSummaries E r m)) [], m, w1)"
      by (rule runs_via, simp add: y Ok, rule runs_via, simp)
    note patches = runs_trans [OF runs_trans [OF start this] patches_runs [OF z [unfolded getPatches_def]]]
    show ?thesis
    proof (cases z)
      case (Ok ps)
      have "runs (eval_step E) (Patches r h u [] ps, m, w2) (Done x, m', w')"
        by (rule runs_via, cases "unstructuredHash E u ps")
          (use assms Some y \<open>y = Ok u\<close> z Ok in \<open>auto simp: evaluateResource_def intro: store_runs split: if_splits\<close>)
      with patches Ok show ?thesis by (auto intro: runs_trans)
    qed (use patches assms Some y Ok z in \<open>auto simp: evaluateResource_def\<close>)
  next
    case (Err e)
    have "runs (eval_step E) (Fetch r h, m, w) (Done x, m', w')"
      by (rule runs_via) (use assms Some y Err in \<open>auto simp: evaluateResource_def intro: store_runs split: if_splits\<close>)
    with start show ?thesis by (rule runs_trans)
  next
    case Panic
    have "runs (eval_step E) (Fetch r h, m, w) (Done x, m', w')"
      by (rule runs_via) (use assms Some y Panic in \<open>simp add: evaluateResource_def\<close>)
    with start show ?thesis by (rule runs_trans)
  qed
qed

section \<open>A pass without interference\<close>

lemma pass_step_Evaluating:
  "eval_step E (pc, m, w) = Some (pc', m', w') \<Longrightarrow>
   pass_step E (Evaluating r pc rs failed, m, w) = Some (Evaluating r pc' rs failed, m', w')"
  by (cases pc) (simp_all del: eval_step.simps add: eval_step.simps(12))

lemma evaluating_runs:
  assumes "runs (eval_step E) (pc, m, w) (pc', m', w')"
  shows "runs (pass_step E) (Evaluating r pc rs failed, m, w) (Evaluating r pc' rs failed, m', w')"
proof -
  have "pass_step E (case s of (pc, mw) \<Rightarrow> (Evaluating r pc rs failed, mw)) = Some (case s1 of (pc, mw) \<Rightarrow> (Evaluating r pc rs failed, mw))"
    if "eval_step E s = Some s1" for s s1
    by (cases s; cases s1) (use that in \<open>simp add: pass_step_Evaluating del: pass_step.simps eval_step.simps\<close>)
  from runs_lift [OF assms, of "pass_step E" "\<lambda>(pc, mw). (Evaluating r pc rs failed, mw)", OF this] show ?thesis by simp
qed

lemma evaluateAll_runs:
  "evaluateAll E rs failed (m, w) = (x, m', w') \<Longrightarrow>
   runs (pass_step E) (Next rs failed, m, w) (case x of Ok f \<Rightarrow> Requeue (set_Items E f) | _ \<Rightarrow> Crashed, m', w')"
proof (induction rs arbitrary: failed m w)
  case Nil
  show ?case by (rule runs_via) (use Nil in auto)
next
  case (Cons r rs)
  obtain y m1 w1 where y: "evaluateResource E r (m, w) = (y, m1, w1)" using prod_cases3 by blast
  have "runs (pass_step E) (Next (r # rs) failed, m, w) (Evaluating r (Done y) rs failed, m1, w1)"
    by (rule runs_step [OF _ evaluating_runs [OF evaluateResource_runs [OF y]]]) simp
  moreover have "runs (pass_step E) (Evaluating r (Done y) rs failed, m1, w1)
      (case x of Ok f \<Rightarrow> Requeue (set_Items E f) | _ \<Rightarrow> Crashed, m', w')"
    by (rule runs_via, cases y) (use Cons y in auto)
  ultimately show ?case by (rule runs_trans)
qed

lemma requeue_runs:
  "runs (pass_step E) (Requeue rs, m, w) (Finished, fold (checkForConfigurationDrift E) rs m, w)"
  by (induction rs arbitrary: m; rule runs_via) simp_all

lemma evaluateAll_no_error: "fst (evaluateAll E rs failed mw) \<noteq> Err e"
  by (induction rs arbitrary: failed mw) (auto split: outcome.splits prod.splits)

lemma evaluateQueue_runs:
  assumes "evaluateQueue E (m, w) = (x, m', w')"
  shows "runs (pass_step E) (Sleeping, m, w) (if x = Ok () then Finished else Crashed, m', w')"
proof -
  obtain y m1 w1 where y: "evaluateAll E (set_Items E (jobQueue m)) (set_new E) (m\<lparr>jobQueue := set_new E\<rparr>, w) = (y, m1, w1)"
    using prod_cases3 by blast
  have first: "runs (pass_step E) (Sleeping, m, w) (case y of Ok f \<Rightarrow> Requeue (set_Items E f) | _ \<Rightarrow> Crashed, m1, w1)"
    by (rule runs_step [OF _ evaluateAll_runs [OF y]]) simp
  show ?thesis
  proof (cases y)
    case (Ok f)
    then have "x = Ok ()" "m' = fold (checkForConfigurationDrift E) (set_Items E f) m1" "w' = w1"
      using assms y by (auto simp: evaluateQueue_def)
    with first Ok requeue_runs [of E "set_Items E f" m1 w1] show ?thesis by (auto intro: runs_trans)
  next
    case (Err e)
    then show ?thesis using y evaluateAll_no_error [of E _ _ _ e] by (metis fst_conv)
  qed (use first assms y in \<open>auto simp: evaluateQueue_def\<close>)
qed

section \<open>How long a pass can take\<close>

text \<open>
  Ranks that every step of the goroutine lowers, whatever the manager and the cluster have become since
  its last step.
\<close>

fun eval_rank :: "'v eval_pc \<Rightarrow> nat \<times> nat \<times> nat" where
  "eval_rank (Started r) = (6, 0, 0)"
| "eval_rank (Fetch r h) = (5, 0, 0)"
| "eval_rank (Gather r h u) = (4, 0, 0)"
| "eval_rank (Patches r h u qs ps) = (3, 0, length qs)"
| "eval_rank (Store r h) = (2, 0, 0)"
| "eval_rank (Types r h sums ts) = (1, 2 * length ts, 0)"
| "eval_rank (Requests r h t qs sums ts) = (1, 2 * length ts + 1, 2 * length qs)"
| "eval_rank (Update r h t rs qs sums ts) = (1, 2 * length ts + 1, 2 * length qs + 1)"
| "eval_rank (Done x) = (0, 0, 0)"

fun pass_rank :: "('s, 'v) pass_pc \<Rightarrow> nat \<times> nat \<times> nat \<times> nat \<times> nat" where
  "pass_rank Sleeping = (3, 0, 0, 0, 0)"
| "pass_rank (Next rs failed) = (2, 2 * length rs, 0, 0, 0)"
| "pass_rank (Evaluating r pc rs failed) = (2, 2 * length rs + 1, eval_rank pc)"
| "pass_rank (Requeue rs) = (1, length rs, 0, 0, 0)"
| "pass_rank Finished = (0, 0, 0, 0, 0)"
| "pass_rank Crashed = (0, 0, 0, 0, 0)"

abbreviation "rank3 \<equiv> less_than <*lex*> less_than <*lex*> less_than"

lemma eval_step_rank:
  "eval_step E (pc, m, w) = Some (pc', m', w') \<Longrightarrow> (eval_rank pc', eval_rank pc) \<in> rank3"
  by (cases "(E, pc, m, w)" rule: eval_step.cases) (auto split: option.splits outcome.splits prod.splits if_splits)

lemma eval_step_None: "eval_step E (pc, m, w) = None \<longleftrightarrow> (\<exists>x. pc = Done x)"
  by (cases "(E, pc, m, w)" rule: eval_step.cases) auto

lemma pass_step_rank:
  "pass_step E (pc, m, w) = Some (pc', m', w') \<Longrightarrow> (pass_rank pc', pass_rank pc) \<in> less_than <*lex*> less_than <*lex*> rank3"
proof (cases pc)
  case (Evaluating r epc rs failed)
  assume step: "pass_step E (pc, m, w) = Some (pc', m', w')"
  show ?thesis
  proof (cases "\<exists>x. epc = Done x")
    case True
    with step Evaluating show ?thesis by (auto split: outcome.splits)
  next
    case False
    then obtain epc' m1 w1 where e: "eval_step E (epc, m, w) = Some (epc', m1, w1)"
      using eval_step_None [of E epc m w] by (metis option.exhaust prod.exhaust)
    then have "pc' = Evaluating r epc' rs failed"
      using step pass_step_Evaluating [OF e] by (simp add: Evaluating del: pass_step.simps eval_step.simps)
    with eval_step_rank [OF e] Evaluating show ?thesis by auto
  qed
next
  case (Next rs failed)
  assume "pass_step E (pc, m, w) = Some (pc', m', w')"
  with Next show ?thesis by (cases rs) auto
next
  case (Requeue rs)
  assume "pass_step E (pc, m, w) = Some (pc', m', w')"
  with Requeue show ?thesis by (cases rs) auto
qed auto

lemma pass_step_None: "pass_step E (pc, m, w) = None \<longleftrightarrow> pc = Finished \<or> pc = Crashed"
proof (cases pc)
  case (Evaluating r epc rs failed)
  then show ?thesis using eval_step_None [of E epc m w] by (cases epc) auto
next
  case (Next rs failed)
  then show ?thesis by (cases rs) auto
next
  case (Requeue rs)
  then show ?thesis by (cases rs) auto
qed auto

section \<open>Properties\<close>

text \<open>
  (C8) The evaluation goroutine, taken step by step, and the function that describes a whole pass
  agree: running the steps of a pass with nobody interfering reaches the end with a manager and a
  cluster exactly when \<open>evaluateQueue\<close> returns them, and it crashes exactly when that panics.
\<close>

theorem pass_steps_equivalent:
  "(runs (pass_step E) (Sleeping, m, w) (Finished, m', w') \<longleftrightarrow> evaluateQueue E (m, w) = (Ok (), m', w')) \<and>
   (runs (pass_step E) (Sleeping, m, w) (Crashed, m', w') \<longleftrightarrow> evaluateQueue E (m, w) = (Panic, m', w'))"
proof -
  obtain x m1 w1 where x: "evaluateQueue E (m, w) = (x, m1, w1)" using prod_cases3 by blast
  have "x \<noteq> Err e" for e using x evaluateAll_no_error [of E _ _ _ e]
    by (auto simp: evaluateQueue_def and_then_def split: outcome.splits prod.splits) (metis fst_conv)
  then have "x = Ok () \<or> x = Panic" by (cases x) auto
  moreover note evaluateQueue_runs [OF x] runs_final_unique [where f = "pass_step E" and s = "(Sleeping, m, w)"]
  ultimately show ?thesis using x pass_step_None [of E] by (auto split: if_splits) blast+
qed

text \<open>
  (C9) A pass ends whatever the others do meanwhile. Between two steps of the goroutine the manager and
  the cluster may have changed in any way: still it cannot take infinitely many steps in one pass, and
  it is never stuck before the pass has finished or crashed.
\<close>

theorem pass_ends_under_interference:
  fixes E :: "('s, 'w, 'v) ext"
  shows "\<not> (\<exists>pc. \<forall>i :: nat. \<exists>m w m' w'. pass_step E (pc i, m, w) = Some (pc (Suc i), m', w')) \<and>
   (pass_step E (pc, m, w) = None \<longleftrightarrow> pc = Finished \<or> pc = Crashed)"
proof -
  have "wf (inv_image (less_than <*lex*> less_than <*lex*> rank3) (pass_rank :: ('s, 'v) pass_pc \<Rightarrow> _))"
    by (intro wf_inv_image wf_lex_prod wf_less_than)
  then have "\<not> (\<exists>pc :: nat \<Rightarrow> ('s, 'v) pass_pc. \<forall>i. (pass_rank (pc (Suc i)), pass_rank (pc i)) \<in> less_than <*lex*> less_than <*lex*> rank3)"
    by (simp add: wf_iff_no_infinite_down_chain)
  moreover have "(pass_rank (pc (Suc i)), pass_rank (pc i)) \<in> less_than <*lex*> less_than <*lex*> rank3"
    if "\<forall>i. \<exists>m w m' w'. pass_step E (pc i, m, w) = Some (pc (Suc i), m', w')" for pc i
    using that pass_step_rank by metis
  ultimately have "\<not> (\<exists>pc. \<forall>i :: nat. \<exists>m w m' w'. pass_step E (pc i, m, w) = Some (pc (Suc i), m', w'))" by blast
  with pass_step_None [of E pc m w] show ?thesis by blast
qed

end
