(* ===== verification/Interleaving.thy ===== *)
theory Interleaving
  imports Reconciler Goroutine
begin

text \<open>
  The goroutines that share one manager: the reconcilers' registrations, the informers' notifications
  and the evaluation loop. Registering, unregistering and reacting hold the manager's lock from
  beginning to end and are one step each; the evaluation loop takes the lock piecewise, and each step of
  its machine is a step, between which the others may run. The cluster may change at any time.
\<close>

section \<open>The step relation\<close>

inductive istep :: "('s, 'w, 'v) ext \<Rightarrow> ('s, 'w, 'v) pass_state \<Rightarrow> ('s, 'w, 'v) pass_state \<Rightarrow> bool" for E where
  register: "RegisterResource E r t (rs, m, w) = (x, rs1, m', w') \<Longrightarrow> istep E (pc, m, w) (pc, m', w')"
| unregister: "UnRegisterResource E r t (rs, m) = (x, rs1, m') \<Longrightarrow> istep E (pc, m, w) (pc, m', w)"
| notify: "informers m i = Some g \<Longrightarrow> istep E (pc, m, w) (pc, handleEvent E g ev m, w)"
| cluster: "istep E (pc, m, w) (pc, m, w')"
| evaluator: "pass_step E s = Some s' \<Longrightarrow> istep E s s'"
| again: "istep E (Finished, m, w) (Sleeping, m, w)"

inductive ireach :: "('s, 'w, 'v) ext \<Rightarrow> ('s, 'w, 'v) pass_state \<Rightarrow> ('s, 'w, 'v) pass_state \<Rightarrow> bool" for E s where
  start: "ireach E s s"
| next_step: "ireach E s s1 \<Longrightarrow> istep E s1 s2 \<Longrightarrow> ireach E s s2"

lemma ireach_step: "istep E s s1 \<Longrightarrow> ireach E s s1"
  by (rule ireach.next_step [OF ireach.start])

section \<open>What holds whatever the interleaving\<close>

text \<open>The invariant of the manager without the claim that a hash is kept for tracked resources only.\<close>

definition shared_inv :: "('s, 'w, 'v) ext \<Rightarrow> 's manager \<Rightarrow> bool" where
  "shared_inv E m \<longleftrightarrow> consumers_inv E m \<and> watchers_inv m \<and>
     (\<forall>g s r. gvkResources m g = Some s \<longrightarrow> r \<in> elems E s \<longrightarrow>
        resourceHashes m r \<noteq> None \<and> ref_GroupVersionKind E r = g)"

lemma shared_invI:
  assumes "consumers_inv E m" and "watchers_inv m"
    and "\<And>g s r. gvkResources m g = Some s \<Longrightarrow> r \<in> elems E s \<Longrightarrow> resourceHashes m r \<noteq> None \<and> ref_GroupVersionKind E r = g"
  shows "shared_inv E m"
  using assms by (simp add: shared_inv_def)

lemma shared_invD:
  assumes "shared_inv E m"
  shows "consumers_inv E m" and "watchers_inv m"
    and "gvkResources m g = Some s \<Longrightarrow> r \<in> elems E s \<Longrightarrow> resourceHashes m r \<noteq> None"
    and "gvkResources m g = Some s \<Longrightarrow> r \<in> elems E s \<Longrightarrow> ref_GroupVersionKind E r = g"
  using assms by (simp_all add: shared_inv_def)

lemma manager_inv_shared: "manager_inv E m \<Longrightarrow> shared_inv E m"
  by (simp add: manager_inv_def shared_inv_def hashes_inv_def)

lemma shared_inv_jobQueue [simp]: "shared_inv E (m\<lparr>jobQueue := q\<rparr>) = shared_inv E m"
  using consumers_inv_cong [of "m\<lparr>jobQueue := q\<rparr>" m E] watchers_inv_cong [of "m\<lparr>jobQueue := q\<rparr>" m]
  by (simp add: shared_inv_def)

lemma shared_inv_updateResourceHash: "shared_inv E m \<Longrightarrow> shared_inv E (updateResourceHash r h m)"
  using consumers_inv_cong [of "updateResourceHash r h m" m E] watchers_inv_cong [of "updateResourceHash r h m" m]
  by (auto simp: shared_inv_def updateResourceHash_def)

context libset
begin

lemma shared_inv_trackResource:
  assumes "shared_inv E m"
  shows "shared_inv E (trackResource E r t q m)"
proof (rule shared_invI)
  show "consumers_inv E (trackResource E r t q m)"
    using shared_invD(1) [OF assms] by (auto simp: consumers_inv_def trackResource_def Let_def split: if_splits)
  show "watchers_inv (trackResource E r t q m)"
    using shared_invD(2) [OF assms] watchers_inv_cong [of "trackResource E r t q m" m] by simp
qed (use shared_invD(3,4) [OF assms] in auto)

lemma shared_inv_RegisterResource:
  assumes inv: "shared_inv E m" and res: "RegisterResource E r t (rs, m, w) = (x, rs1, m', w')"
  shows "shared_inv E m'"
proof (cases rule: RegisterResource_cases [where E = E and rs = rs and r = r and t = t and m = m and w = w])
  case (hashed q rs2 u w1 h y m2 w2)
  then have m': "m' = m2" using res by simp
  let ?m = "(trackResource E r t q m)\<lparr>resourceHashes := (resourceHashes m)(r \<mapsto> h)\<rparr>"
  note tr = shared_inv_trackResource [OF inv, of r t q] and frame = updateGVK_frame [OF hashed(5)]
  show ?thesis unfolding m'
  proof (rule shared_invI)
    show "consumers_inv E m2"
      using shared_invD(1) [OF tr] consumers_inv_cong [of m2 "trackResource E r t q m" E] frame(1) by simp
    have "watchers_inv ?m" using shared_invD(2) [OF tr] watchers_inv_cong [of ?m "trackResource E r t q m"] by simp
    then show "watchers_inv m2" by (rule updateGVK_watchers_inv [OF _ hashed(5)])
    fix g s r'
    assume "gvkResources m2 g = Some s" and "r' \<in> elems E s"
    from updateGVK_sets [OF hashed(5) this] shared_invD(3,4) [OF inv, of g _ r'] frame(2)
    show "resourceHashes m2 r' \<noteq> None \<and> ref_GroupVersionKind E r' = g" by auto
  qed
qed (use assms shared_inv_trackResource [OF inv] in auto)

lemma shared_inv_UnRegisterResource:
  assumes inv: "shared_inv E m" and res: "UnRegisterResource E r t (rs, m) = (x, rs1, m')"
  shows "shared_inv E m'"
proof (cases rule: UnRegisterResource_cases [where rs = rs and r = r and t = t and m = m])
  case (erased q rs2 s m1)
  have m1: "shared_inv E m1"
  proof (rule shared_invI)
    show "consumers_inv E m1"
      using shared_invD(1) [OF inv] by (auto simp: consumers_inv_def erased(3) split: if_splits)
    show "watchers_inv m1" using shared_invD(2) [OF inv] watchers_inv_cong [of m1 m] by (simp add: erased(3))
  qed (use shared_invD(3,4) [OF inv] in \<open>auto simp: erased(3)\<close>)
  have "shared_inv E (stopTrackingResource E r m1)"
  proof (rule shared_invI)
    show "consumers_inv E (stopTrackingResource E r m1)"
      using shared_invD(1) [OF m1] consumers_inv_cong [of "stopTrackingResource E r m1" m1 E] by simp
    show "watchers_inv (stopTrackingResource E r m1)"
      by (rule stopTrackingResource_watchers_inv [OF shared_invD(2) [OF m1]])
    fix g s r'
    assume "gvkResources (stopTrackingResource E r m1) g = Some s" and "r' \<in> elems E s"
    then obtain s0 where "gvkResources m1 g = Some s0" "r' \<in> elems E s0" and "g = ref_GroupVersionKind E r \<Longrightarrow> r' \<noteq> r"
      by (auto simp: stopTrackingResource_gvkResources split: if_splits option.splits)
    with shared_invD(3,4) [OF m1] show "resourceHashes (stopTrackingResource E r m1) r' \<noteq> None \<and> ref_GroupVersionKind E r' = g"
      by auto
  qed
  with m1 res erased(4) show ?thesis by auto
qed (use assms in auto)

lemma eval_step_shared_inv:
  "eval_step E (pc, m, w) = Some (pc', m', w') \<Longrightarrow> shared_inv E m \<Longrightarrow> shared_inv E m'"
  by (cases "(E, pc, m, w)" rule: eval_step.cases)
    (auto intro: shared_inv_updateResourceHash split: outcome.splits prod.splits)

lemma pass_step_shared_inv:
  "pass_step E s = Some s' \<Longrightarrow> shared_inv E (fst (snd s)) \<Longrightarrow> shared_inv E (fst (snd s'))"
proof (cases "(E, s)" rule: pass_step.cases)
  case (4 E' r pc rs failed m w)
  assume step: "pass_step E s = Some s'" and inv: "shared_inv E (fst (snd s))"
  show ?thesis
  proof (cases "\<exists>x. pc = Done x")
    case False
    then obtain pc' m' w' where e: "eval_step E (pc, m, w) = Some (pc', m', w')"
      using eval_step_None [of E pc m w] by (metis option.exhaust prod.exhaust)
    then have "s' = (Evaluating r pc' rs failed, m', w')"
      using step 4 pass_step_Evaluating [OF e] by (simp del: pass_step.simps)
    with eval_step_shared_inv [OF e] inv 4 show ?thesis by simp
  qed (use step inv 4 in auto)
qed (auto simp: checkForConfigurationDrift_def)

lemma istep_shared_inv: "istep E s s' \<Longrightarrow> shared_inv E (fst (snd s)) \<Longrightarrow> shared_inv E (fst (snd s'))"
proof (induction rule: istep.induct)
  case (notify m i g pc w ev)
  then show ?case using handleEvent_queue_only [of E g ev m] by auto
next
  case (evaluator s s')
  then show ?case by (rule pass_step_shared_inv)
qed (auto intro: shared_inv_RegisterResource shared_inv_UnRegisterResource)

lemma ireach_shared_inv: "ireach E s s' \<Longrightarrow> shared_inv E (fst (snd s)) \<Longrightarrow> shared_inv E (fst (snd s'))"
  by (induction rule: ireach.induct) (auto dest: istep_shared_inv)

end

section \<open>What holds without the race\<close>

text \<open>
  The resource an evaluation has read the hash of and may still store one for: from reading the stored hash
  to storing the new one.
\<close>

fun eval_pending :: "'v eval_pc \<Rightarrow> objref option" where
  "eval_pending (Fetch r h) = Some r"
| "eval_pending (Gather r h u) = Some r"
| "eval_pending (Patches r h u qs ps) = Some r"
| "eval_pending (Store r h) = Some r"
| "eval_pending _ = None"

fun pending :: "('s, 'v) pass_pc \<Rightarrow> objref option" where
  "pending (Evaluating r pc rs failed) = eval_pending pc"
| "pending _ = None"

text \<open>The race: in such a moment the resource loses its hash, because nobody tracks it any more.\<close>

definition hash_lost :: "('s, 'w, 'v) pass_state \<Rightarrow> ('s, 'w, 'v) pass_state \<Rightarrow> bool" where
  "hash_lost = (\<lambda>(pc, m, w) (pc', m', w').
     \<exists>r. pending pc = Some r \<and> resourceHashes m r \<noteq> None \<and> resourceHashes m' r = None)"

definition quiet_inv :: "('s, 'w, 'v) ext \<Rightarrow> ('s, 'w, 'v) pass_state \<Rightarrow> bool" where
  "quiet_inv E = (\<lambda>(pc, m, w). manager_inv E m \<and> (\<forall>r. pending pc = Some r \<longrightarrow> resourceHashes m r \<noteq> None))"

lemma quiet_invI:
  "manager_inv E m \<Longrightarrow> (\<And>r. pending pc = Some r \<Longrightarrow> resourceHashes m r \<noteq> None) \<Longrightarrow> quiet_inv E (pc, m, w)"
  by (simp add: quiet_inv_def)

lemma quiet_invD:
  assumes "quiet_inv E (pc, m, w)"
  shows "manager_inv E m" and "pending pc = Some r \<Longrightarrow> resourceHashes m r \<noteq> None"
  using assms by (simp_all add: quiet_inv_def)

text \<open>A step of an evaluation stores a hash for a resource that has one, or leaves the manager alone.\<close>

lemma eval_step_quiet:
  assumes "eval_step E (pc, m, w) = Some (pc', m', w')" and "\<And>r. eval_pending pc = Some r \<Longrightarrow> resourceHashes m r \<noteq> None"
  shows "only_hashes m m' \<and> (\<forall>r. eval_pending pc' = Some r \<longrightarrow> resourceHashes m' r \<noteq> None)"
proof (cases "\<exists>r h. pc = Store r h")
  case True
  then show ?thesis using assms by (auto simp: only_hashes_updateResourceHash)
next
  case False
  have "m' = m" and "eval_pending pc' = Some r \<Longrightarrow> eval_pending pc = Some r \<or> (\<exists>h. resourceHashes m r = Some h)" for r
    using assms(1) False
    by (cases "(E, pc, m, w)" rule: eval_step.cases; auto split: option.splits outcome.splits prod.splits if_splits)+
  then show ?thesis using assms(2) by auto
qed

lemma pass_step_quiet:
  assumes "pass_step E s = Some s'" and "quiet_inv E s"
  shows "quiet_inv E s'"
proof (cases "(E, s)" rule: pass_step.cases)
  case (4 E' r pc rs failed m w)
  show ?thesis
  proof (cases "\<exists>x. pc = Done x")
    case False
    then obtain pc' m' w' where e: "eval_step E (pc, m, w) = Some (pc', m', w')"
      using eval_step_None [of E pc m w] by (metis option.exhaust prod.exhaust)
    then have s': "s' = (Evaluating r pc' rs failed, m', w')"
      using assms(1) 4 pass_step_Evaluating [OF e] by (simp del: pass_step.simps)
    have q: "quiet_inv E (Evaluating r pc rs failed, m, w)" using assms(2) 4 by simp
    from eval_step_quiet [OF e] quiet_invD(2) [OF q] have "only_hashes m m'"
      and "\<forall>r. eval_pending pc' = Some r \<longrightarrow> resourceHashes m' r \<noteq> None" by simp_all
    with only_hashes_inv [OF _ quiet_invD(1) [OF q]] show ?thesis unfolding s' by (intro quiet_invI) simp_all
  qed (use assms 4 in \<open>auto simp: quiet_inv_def split: outcome.splits\<close>)
qed (use assms in \<open>auto simp: quiet_inv_def checkForConfigurationDrift_def\<close>)

context libset
begin

lemma istep_quiet:
  assumes "istep E s s'" and "quiet_inv E s" and "\<not> hash_lost s s'"
  shows "quiet_inv E s'"
  using assms
proof (induction rule: istep.induct)
  case (register r t rs m w x rs1 m' w' pc)
  note q = quiet_invD [OF register.prems(1)]
  show ?case
  proof (rule quiet_invI)
    show "manager_inv E m'" by (rule RegisterResource_inv [OF q(1) register.hyps])
    show "resourceHashes m' r' \<noteq> None" if "pending pc = Some r'" for r'
      using q(2) [OF that] RegisterResource_hashes [OF register.hyps, of r'] by (auto split: if_splits)
  qed
next
  case (unregister r t rs m x rs1 m' pc w)
  note q = quiet_invD [OF unregister.prems(1)]
  show ?case
  proof (rule quiet_invI)
    show "manager_inv E m'" by (rule UnRegisterResource_inv [OF q(1) unregister.hyps])
    show "resourceHashes m' r' \<noteq> None" if "pending pc = Some r'" for r'
      using q(2) [OF that] unregister.prems(2) that by (auto simp: hash_lost_def)
  qed
next
  case (notify m i g pc w ev)
  obtain q where "handleEvent E g ev m = m\<lparr>jobQueue := q\<rparr>" using handleEvent_queue_only [of E g ev m] by blast
  with notify.prems(1) show ?case by (simp add: quiet_inv_def)
next
  case (evaluator s s')
  show ?case by (rule pass_step_quiet [OF evaluator.hyps evaluator.prems(1)])
qed (simp_all add: quiet_inv_def)

end

section \<open>Properties\<close>

text \<open>
  (C10) However registrations, notifications, changes of the cluster and the pieces of evaluations are
  interleaved from a new manager on: no tracked resource is without a consumer; every watcher is a
  running informer of its GVK and the other way round, and its GVK is in use; the resources in the set
  of a GVK are of that GVK and have a hash.
\<close>

theorem interleavings_keep_invariant:
  assumes "libset E" and "ireach E (Sleeping, newManager E cns cn ct iv su, w) (pc, m, w')"
  shows "(\<forall>t r s. typeMap t m r = Some s \<longrightarrow> elems E s \<noteq> {}) \<and>
    (\<forall>g i. watchers m g = Some i \<longleftrightarrow> informers m i = Some g) \<and>
    (\<forall>g. watchers m g \<noteq> None \<longrightarrow> gvkResources m g \<noteq> None) \<and>
    (\<forall>g s r. gvkResources m g = Some s \<longrightarrow> r \<in> elems E s \<longrightarrow> resourceHashes m r \<noteq> None \<and> ref_GroupVersionKind E r = g)"
proof -
  have inv: "shared_inv E m"
    using libset.ireach_shared_inv [OF assms] manager_inv_shared [OF newManager_inv [of E cns cn ct iv su]] by simp
  show ?thesis
  proof (intro conjI)
    show "\<forall>t r s. typeMap t m r = Some s \<longrightarrow> elems E s \<noteq> {}"
      using shared_invD(1) [OF inv] unfolding consumers_inv_def .
    show "\<forall>g i. watchers m g = Some i \<longleftrightarrow> informers m i = Some g"
      "\<forall>g. watchers m g \<noteq> None \<longrightarrow> gvkResources m g \<noteq> None"
      using shared_invD(2) [OF inv] unfolding watchers_inv_def by blast+
    show "\<forall>g s r. gvkResources m g = Some s \<longrightarrow> r \<in> elems E s \<longrightarrow>
        resourceHashes m r \<noteq> None \<and> ref_GroupVersionKind E r = g"
      using inv unfolding shared_inv_def by blast
  qed
qed

theorem interleavings_keep_invariant_witness:
  "(watchers ex_registered ex_deployment_gvk = Some 0 \<longleftrightarrow> informers ex_registered 0 = Some ex_deployment_gvk) \<and>
   ireach ref_ext (Sleeping, ex_manager, ex_cluster) (Sleeping, ex_registered, ex_cluster)"
proof -
  have reach: "ireach ref_ext (Sleeping, ex_manager, ex_cluster) (Sleeping, ex_registered, ex_cluster)"
    by (rule ireach_step [OF istep.register [OF ex_register]])
  with interleavings_keep_invariant [OF ref_set.libset_axioms reach [unfolded ex_manager_def]] show ?thesis by blast
qed

text \<open>
  (C40) A race leaves a hash behind. When the last ResourceSummary stops tracking a resource between an
  evaluation's comparison and its storing of the new hash, the hash is stored for a resource nobody
  tracks; the next registration of the resource finds it, returns it as a success, and the resource is
  not put into the set that keeps the watcher of its GVK running.
\<close>

theorem stale_hash_after_race:
  assumes "libset E" and "manager_inv E m" and "UnRegisterResource E r t (rs, m) = (Ok (), rs1, m1)"
    and "\<not> is_tracked m1 r" and "GetObjectReference E rs2 = Ok (q2, rs3)"
  shows "\<exists>m2 m3. ireach E (Evaluating r (Store r h) todo failed, m, w)
      (Evaluating r (Types r h [] [Resource, HelmResource, KustomizeResource]) todo failed, m2, w) \<and>
    resourceHashes m2 r = Some h \<and> \<not> is_tracked m2 r \<and>
    RegisterResource E r t2 (rs2, m2, w2) = (Ok h, rs3, m3, w2) \<and> \<not> watched E m3 r"
proof -
  let ?m2 = "updateResourceHash r h m1"
  have "resourceHashes m1 r = None" by (rule libset.UnRegisterResource_forgotten [OF assms(1-4)])
  then have "\<not> (\<exists>s. gvkResources m1 (ref_GroupVersionKind E r) = Some s \<and> r \<in> elems E s)"
    using hashes_invD(2) [OF manager_invD(2) [OF libset.UnRegisterResource_inv [OF assms(1-3)]]] by blast
  then have "\<not> watched E (trackResource E r t2 q2 ?m2) r" by (simp add: watched_def updateResourceHash_def)
  moreover have "RegisterResource E r t2 (rs2, ?m2, w2) = (Ok h, rs3, trackResource E r t2 q2 ?m2, w2)"
    using assms(5) by (simp add: RegisterResource_def updateResourceHash_def)
  moreover have "ireach E (Evaluating r (Store r h) todo failed, m, w)
      (Evaluating r (Types r h [] [Resource, HelmResource, KustomizeResource]) todo failed, ?m2, w)"
    by (rule ireach.next_step [OF ireach_step [OF istep.unregister [OF assms(3)]] istep.evaluator]) simp
  moreover have "resourceHashes ?m2 r = Some h" "\<not> is_tracked ?m2 r"
    using assms(4) by (simp_all add: updateResourceHash_def)
  ultimately show ?thesis by blast
qed

theorem stale_hash_after_race_witness:
  "\<exists>m2 m3. ireach ref_ext (Evaluating ex_deployment_ref (Store ex_deployment_ref (Some [1])) [] [], ex_registered, ex_cluster)
       (Evaluating ex_deployment_ref (Types ex_deployment_ref (Some [1]) [] [Resource, HelmResource, KustomizeResource]) [] [], m2, ex_cluster) \<and>
    RegisterResource ref_ext ex_deployment_ref Resource (ex_summary, m2, ex_cluster) = (Ok (Some [1]), ex_summary, m3, ex_cluster) \<and>
    \<not> watched ref_ext m3 ex_deployment_ref"
proof -
  obtain m1 where un: "UnRegisterResource ref_ext ex_deployment_ref Resource (ex_summary, ex_registered) =
      (Ok (), ex_summary, m1)" using ex_unregister by blast
  have T: "tracked ref_ext m1 = {}" using libset.UnRegisterResource_tracked [OF ref_set.libset_axioms ex_reference un] by simp
  moreover have "consumers_inv ref_ext m1"
    by (rule manager_invD(1) [OF libset.UnRegisterResource_inv [OF ref_set.libset_axioms ex_registered_inv un]])
  ultimately have "\<not> is_tracked m1 ex_deployment_ref" by (simp add: is_tracked_iff)
  from stale_hash_after_race [OF ref_set.libset_axioms ex_registered_inv un this ex_reference] show ?thesis by blast
qed

end
