(* ===== verification/Main_Loop.thy ===== *)
theory Main_Loop
  imports Reconciler Complex_Main
begin

text \<open>
  The program's entry point (\<open>main.go\<close>) and the scheme (\<open>controllers/utils.go\<close>): the flags, the loop that
  creates the manager and starts it again when its token expires, and the goroutines beside it. The
  controller runtime, in which everything else runs, is a parameter.
\<close>

section \<open>Flags\<close>

definition noUpdates :: string where
  "noUpdates = ''do-not-send-updates''"

definition managedCluster :: string where
  "managedCluster = ''managed-cluster''"

record flags =
  diagnosticsAddress :: string
  insecureDiagnostics :: bool
  runMode :: string
  deployedCluster :: string
  flag_clusterNamespace :: string
  flag_clusterName :: string
  flag_clusterType :: string
  restConfigQPS :: rat
  restConfigBurst :: int
  webhookPort :: int
  syncPeriod :: u64
  healthAddr :: string
  flag_version :: string

text \<open>The defaults, which the command line overrides.\<close>

definition initFlags :: flags where
  "initFlags = \<lparr>diagnosticsAddress = '':8443'', insecureDiagnostics = False, runMode = noUpdates,
     deployedCluster = managedCluster, flag_clusterNamespace = [], flag_clusterName = [], flag_clusterType = [],
     restConfigQPS = 40, restConfigBurst = 60, webhookPort = 9443, syncPeriod = 10 * (60 * time_Second),
     healthAddr = '':9440'', flag_version = []\<rparr>"

record metrics_options =
  BindAddress :: string
  SecureServing :: bool
  withAuthenticationAndAuthorization :: bool

definition getDiagnosticsOptions :: "flags \<Rightarrow> metrics_options" where
  "getDiagnosticsOptions fl =
     (if insecureDiagnostics fl
      then \<lparr>BindAddress = diagnosticsAddress fl, SecureServing = False, withAuthenticationAndAuthorization = False\<rparr>
      else \<lparr>BindAddress = diagnosticsAddress fl, SecureServing = True, withAuthenticationAndAuthorization = True\<rparr>)"

text \<open>The options the controller runtime's manager is created with.\<close>

record ctrl_options =
  opt_Metrics :: metrics_options
  opt_HealthProbeBindAddress :: string
  opt_webhook_Port :: int
  opt_cache_SyncPeriod :: u64
  opt_SkipNameValidation :: bool

definition ctrlOptions :: "flags \<Rightarrow> ctrl_options" where
  "ctrlOptions fl = \<lparr>opt_Metrics = getDiagnosticsOptions fl, opt_HealthProbeBindAddress = healthAddr fl,
     opt_webhook_Port = webhookPort fl, opt_cache_SyncPeriod = syncPeriod fl, opt_SkipNameValidation = True\<rparr>"

section \<open>Code outside the repository\<close>

text \<open>
  \<open>'c\<close> is the type of a rest configuration. Parsing the command line overrides the defaults of the
  flags, or ends the process with an exit code. A controller is built for a kind of objects with a
  number of concurrent reconciliations. Starting the controller runtime's manager runs the
  reconciler, beside the goroutines launched so far, until the context is cancelled.
\<close>

text \<open>The goroutines the main loop launches, with the arguments that are not objects of the runtime.\<close>

datatype goroutine = GoRestartIfNeeded | GoInitializeManager mode string string string

record ('s, 'w, 'c) runtime =
  clientgoscheme_AddToScheme :: "unit outcome"
  clusterv1_AddToScheme :: "unit outcome"
  libsveltos_AddToScheme :: "unit outcome"
  pflag_Parse :: "flags \<Rightarrow> nat + flags"
  ComponentDriftDetectionManager :: string
  RegisterForLogSettings :: "string \<Rightarrow> 'c \<Rightarrow> 'w \<Rightarrow> 'w"
  GetConfigOrDie :: "'w \<Rightarrow> 'c outcome \<times> 'w"
  client_New :: "'c \<Rightarrow> 'w \<Rightarrow> unit outcome \<times> 'w"
  GetKubernetesRestConfig :: "string \<Rightarrow> string \<Rightarrow> string \<Rightarrow> 'w \<Rightarrow> 'c outcome \<times> 'w"
  set_QPS_Burst :: "rat \<Rightarrow> int \<Rightarrow> 'c \<Rightarrow> 'c"
  ctrl_NewManager :: "'c \<Rightarrow> ctrl_options \<Rightarrow> 'w \<Rightarrow> unit outcome \<times> 'w"
  controller_Build :: "string \<Rightarrow> nat \<Rightarrow> 'w \<Rightarrow> unit outcome \<times> 'w"
  AddHealthzCheck :: "'w \<Rightarrow> unit outcome \<times> 'w"
  AddReadyzCheck :: "'w \<Rightarrow> unit outcome \<times> 'w"
  mgr_Start :: "'s reconciler \<Rightarrow> goroutine list \<Rightarrow> 's process \<times> 'w \<Rightarrow> unit outcome \<times> 's process \<times> 'w"

section \<open>Setting up\<close>

definition InitScheme :: "('s, 'w, 'c) runtime \<Rightarrow> unit outcome" where
  "InitScheme C = (case clientgoscheme_AddToScheme C of
     Err e \<Rightarrow> Err e
   | Panic \<Rightarrow> Panic
   | Ok _ \<Rightarrow> (case libsveltos_AddToScheme C of Err e \<Rightarrow> Err e | Panic \<Rightarrow> Panic | Ok _ \<Rightarrow> Ok ()))"

text \<open>Every failure panics.\<close>

definition getManagedClusterRestConfig ::
  "('s, 'w, 'c) runtime \<Rightarrow> flags \<Rightarrow> 'c \<Rightarrow> 'w \<Rightarrow> 'c outcome \<times> 'w" where
  "getManagedClusterRestConfig C fl cfg w =
     (if \<not> is_ok (clientgoscheme_AddToScheme C) then (Panic, w)
      else if \<not> is_ok (clusterv1_AddToScheme C) then (Panic, w)
      else if \<not> is_ok (libsveltos_AddToScheme C) then (Panic, w)
      else (case client_New C cfg w of
              (Ok _, w1) \<Rightarrow>
                (case GetKubernetesRestConfig C (flag_clusterNamespace fl) (flag_clusterName fl) (flag_clusterType fl) w1 of
                   (Ok currentCfg, w2) \<Rightarrow> (Ok currentCfg, w2)
                 | (_, w2) \<Rightarrow> (Panic, w2))
            | (_, w1) \<Rightarrow> (Panic, w1)))"

definition getResourceSummaryReconcilier :: "flags \<Rightarrow> mode \<Rightarrow> 's reconciler" where
  "getResourceSummaryReconcilier fl sendUpd =
     \<lparr>RunMode = sendUpd, rec_ClusterNamespace = flag_clusterNamespace fl, rec_ClusterName = flag_clusterName fl,
      rec_ClusterType = flag_clusterType fl, ResourceSummaryMap = Map.empty, HelmResourceSummaryMap = Map.empty,
      KustomizeResourceSummaryMap = Map.empty, mapper = False\<rparr>"

definition SetupWithManager :: "('s, 'w, 'c) runtime \<Rightarrow> 'w \<Rightarrow> unit outcome \<times> 'w" where
  "SetupWithManager C w = (case controller_Build C ''ResourceSummary'' 15 w of
     (Err e, w1) \<Rightarrow> (Err (Wrapf e ''error creating controller''), w1)
   | (Panic, w1) \<Rightarrow> (Panic, w1)
   | (Ok _, w1) \<Rightarrow> (Ok (), w1))"

text \<open>How the process goes on: the next iteration, the end with an exit code, or a panic.\<close>

datatype main_result = NextIteration | Exit nat | MainPanic

definition or_exit :: "'a outcome \<times> 'st \<Rightarrow> ('a \<Rightarrow> 'st \<Rightarrow> main_result \<times> 'st) \<Rightarrow> main_result \<times> 'st" where
  "or_exit r k = (case r of (Ok a, s) \<Rightarrow> k a s | (Err e, s) \<Rightarrow> (Exit 1, s) | (Panic, s) \<Rightarrow> (MainPanic, s))"

text \<open>
  Beside the cluster the set-up carries the goroutines launched so far, in order; launching one adds it.
\<close>

definition on_cluster :: "('w \<Rightarrow> 'a outcome \<times> 'w) \<Rightarrow> goroutine list \<times> 'w \<Rightarrow> 'a outcome \<times> goroutine list \<times> 'w" where
  "on_cluster f = (\<lambda>(gs, w). (case f w of (x, w1) \<Rightarrow> (x, gs, w1)))"

definition launch :: "goroutine \<Rightarrow> goroutine list \<times> 'w \<Rightarrow> goroutine list \<times> 'w" where
  "launch g = (\<lambda>(gs, w). (gs @ [g], w))"

definition setupChecks ::
  "('s, 'w, 'c) runtime \<Rightarrow> goroutine list \<times> 'w \<Rightarrow> (unit \<Rightarrow> goroutine list \<times> 'w \<Rightarrow> main_result \<times> goroutine list \<times> 'w)
     \<Rightarrow> main_result \<times> goroutine list \<times> 'w" where
  "setupChecks C st k =
     or_exit (on_cluster (AddHealthzCheck C) st) (\<lambda>_ st1. or_exit (on_cluster (AddReadyzCheck C) st1) k)"

section \<open>The goroutines\<close>

text \<open>Initialising is tried until it succeeds, whatever becomes of the context.\<close>

partial_function (option) initializeManager ::
  "('s, 'w, 'v) ext \<Rightarrow> flags \<Rightarrow> mode \<Rightarrow> 's process \<times> 'w \<Rightarrow> (unit outcome \<times> 's process \<times> 'w) option" where
  "initializeManager E fl sendUpd pw =
     (case InitializeManager E (flag_clusterNamespace fl) (flag_clusterName fl) (flag_version fl) (flag_clusterType fl)
             5 (sendUpd = SendUpdates) pw of
        (Ok _, pw1) \<Rightarrow> Some (Ok (), pw1)
      | (Err e, pw1) \<Rightarrow> initializeManager E fl sendUpd pw1
      | (Panic, pw1) \<Rightarrow> Some (Panic, pw1))"

text \<open>The API server is asked for its version until it refuses; then the context is cancelled.\<close>

partial_function (option) restartIfNeeded :: "('s, 'w, 'v) ext \<Rightarrow> 'w \<Rightarrow> (unit outcome \<times> 'w) option" where
  "restartIfNeeded E w =
     (case GetKubernetesVersion E w of
        (Err e, w1) \<Rightarrow> (if IsUnauthorized e \<or> IsForbidden e then Some (Ok (), w1) else restartIfNeeded E w1)
      | (Ok _, w1) \<Rightarrow> restartIfNeeded E w1
      | (Panic, w1) \<Rightarrow> Some (Panic, w1))"

section \<open>The main loop\<close>

text \<open>
  What comes before the controller runtime's manager is started. In the management cluster the goroutine
  that watches for an expired token is launched between the controller's and the checks' set-up.
\<close>

definition main_setup ::
  "('s, 'w, 'c) runtime \<Rightarrow> flags \<Rightarrow> goroutine list \<times> 'w \<Rightarrow> main_result \<times> goroutine list \<times> 'w" where
  "main_setup C fl st =
     or_exit (on_cluster (GetConfigOrDie C) st) (\<lambda>cfg st1.
     or_exit (if deployedCluster fl \<noteq> managedCluster then on_cluster (getManagedClusterRestConfig C fl cfg) st1
              else (Ok cfg, st1)) (\<lambda>cfg1 st2.
     or_exit (on_cluster (ctrl_NewManager C (set_QPS_Burst C (restConfigQPS fl) (restConfigBurst fl) cfg1) (ctrlOptions fl)) st2)
       (\<lambda>_ st3.
     or_exit (on_cluster (SetupWithManager C) st3) (\<lambda>_ st4.
     (let st5 = (if deployedCluster fl \<noteq> managedCluster then launch GoRestartIfNeeded st4 else st4)
      in setupChecks C st5 (\<lambda>_ st6. (NextIteration, st6)))))))"

definition main_mode :: "flags \<Rightarrow> mode" where
  "main_mode fl = (if runMode fl = noUpdates then DoNotSendUpdates else SendUpdates)"

definition main_iteration ::
  "('s, 'w, 'c) runtime \<Rightarrow> flags \<Rightarrow> 's process \<times> goroutine list \<times> 'w \<Rightarrow> main_result \<times> 's process \<times> goroutine list \<times> 'w" where
  "main_iteration C fl = (\<lambda>(p, st).
     (case main_setup C fl st of
        (NextIteration, st1) \<Rightarrow>
          (case launch (GoInitializeManager (main_mode fl) (flag_clusterNamespace fl) (flag_clusterName fl) (flag_clusterType fl)) st1 of
             (gs, w1) \<Rightarrow>
               (case mgr_Start C (getResourceSummaryReconcilier fl (main_mode fl)) gs (p, w1) of
                  (Err e, p1, w2) \<Rightarrow> (Exit 1, p1, gs, w2)
                | (Panic, p1, w2) \<Rightarrow> (MainPanic, p1, gs, w2)
                | (Ok _, p1, w2) \<Rightarrow>
                    (case GetManager p1 of
                       Ok m \<Rightarrow> (NextIteration, Reset p1, gs, w2)
                     | Err e \<Rightarrow> (Exit 1, p1, gs, w2)
                     | Panic \<Rightarrow> (MainPanic, p1, gs, w2))))
      | (res, st1) \<Rightarrow> (res, p, st1)))"

text \<open>The loop, for as many iterations as there is fuel: None while it is still running.\<close>

fun main_loop ::
  "('s, 'w, 'c) runtime \<Rightarrow> flags \<Rightarrow> nat \<Rightarrow> 's process \<times> goroutine list \<times> 'w
     \<Rightarrow> main_result option \<times> 's process \<times> goroutine list \<times> 'w" where
  "main_loop C fl 0 pw = (None, pw)"
| "main_loop C fl (Suc fuel) pw =
     (case main_iteration C fl pw of
        (NextIteration, pw1) \<Rightarrow> main_loop C fl fuel pw1
      | (res, pw1) \<Rightarrow> (Some res, pw1))"

definition registerForLogSettings :: "('s, 'w, 'c) runtime \<Rightarrow> 'w \<Rightarrow> main_result \<times> 'w" where
  "registerForLogSettings C w =
     or_exit (GetConfigOrDie C w) (\<lambda>restConfig w1.
       (NextIteration, RegisterForLogSettings C (ComponentDriftDetectionManager C) restConfig w1))"

definition main ::
  "('s, 'w, 'c) runtime \<Rightarrow> nat \<Rightarrow> 's process \<times> goroutine list \<times> 'w \<Rightarrow> main_result option \<times> 's process \<times> goroutine list \<times> 'w" where
  "main C fuel = (\<lambda>(p, gs, w).
     (case InitScheme C of
        Err e \<Rightarrow> (Some (Exit 1), p, gs, w)
      | Panic \<Rightarrow> (Some MainPanic, p, gs, w)
      | Ok _ \<Rightarrow>
          (case pflag_Parse C initFlags of
             Inl code \<Rightarrow> (Some (Exit code), p, gs, w)
           | Inr fl \<Rightarrow>
               (case registerForLogSettings C w of
                  (NextIteration, w1) \<Rightarrow> main_loop C fl fuel (p, gs, w1)
                | (res, w1) \<Rightarrow> (Some res, p, gs, w1)))))"

section \<open>Lemmas\<close>

lemma or_exit_simps [simp]:
  "or_exit (Ok a, s) k = k a s" "or_exit (Err e, s) k = (Exit 1, s)" "or_exit (Panic, s) k = (MainPanic, s)"
  by (simp_all add: or_exit_def)

lemma or_exit_result:
  "(\<And>a s. r = (Ok a, s) \<Longrightarrow> fst (k a s) \<in> A) \<Longrightarrow> {Exit 1, MainPanic} \<subseteq> A \<Longrightarrow> fst (or_exit r k) \<in> A"
  by (cases r; cases "fst r") auto

text \<open>The goroutines one iteration launches, and what of them has been launched when it does not end.\<close>

definition launches :: "flags \<Rightarrow> goroutine list" where
  "launches fl = (if deployedCluster fl \<noteq> managedCluster then [GoRestartIfNeeded] else []) @
     [GoInitializeManager (main_mode fl) (flag_clusterNamespace fl) (flag_clusterName fl) (flag_clusterType fl)]"

definition launched :: "(main_result \<Rightarrow> goroutine list \<Rightarrow> bool) \<Rightarrow> main_result \<times> goroutine list \<times> 'w \<Rightarrow> bool" where
  "launched P = (\<lambda>(res, gs, w). P res gs)"

lemma launched_or_exit:
  assumes "\<And>a w1. launched P (k a (gs, w1))" and "P (Exit 1) gs" and "P MainPanic gs"
  shows "launched P (or_exit (on_cluster f (gs, w)) k)"
  using assms by (cases "f w"; cases "fst (f w)") (auto simp: on_cluster_def launched_def)

text \<open>The set-up ends in one of three ways; the restarter is launched unless the set-up ended before.\<close>

lemma main_setup_launches:
  assumes "main_setup C fl (gs, w) = (res, gs1, w1)" and "restarter = (if deployedCluster fl \<noteq> managedCluster then [GoRestartIfNeeded] else [])"
  shows "if res = NextIteration then gs1 = gs @ restarter
    else res \<in> {Exit 1, MainPanic} \<and> gs1 \<in> {gs, gs @ restarter}"
proof -
  define P where "P = (\<lambda>res gs1. if res = NextIteration then gs1 = gs @ restarter
      else res \<in> {Exit 1, MainPanic} \<and> gs1 \<in> {gs, gs @ restarter})"
  have ends: "P (Exit 1) gs" "P MainPanic gs" "P (Exit 1) (gs @ restarter)" "P MainPanic (gs @ restarter)"
    by (simp_all add: P_def)
  have checks: "launched P (setupChecks C (gs @ restarter, w2) (\<lambda>_ st. (NextIteration, st)))" for w2
    unfolding setupChecks_def by (intro launched_or_exit ends) (simp_all add: launched_def P_def)
  have "launched P (main_setup C fl (gs, w))"
  proof (cases "deployedCluster fl = managedCluster")
    case True
    then have "restarter = []" by (simp add: assms(2))
    with checks ends have all: "launched P (setupChecks C (gs, w2) (\<lambda>_ st. (NextIteration, st)))" for w2 by simp
    show ?thesis using True unfolding main_setup_def by (simp add: Let_def) (intro launched_or_exit ends all)
  next
    case False
    then have "restarter = [GoRestartIfNeeded]" by (simp add: assms(2))
    with checks have all: "launched P (setupChecks C (launch GoRestartIfNeeded (gs, w2)) (\<lambda>_ st. (NextIteration, st)))" for w2
      by (simp add: launch_def)
    show ?thesis using False unfolding main_setup_def by (simp add: Let_def) (intro launched_or_exit ends all)
  qed
  with assms(1) show ?thesis by (simp add: launched_def P_def)
qed

text \<open>The state a loop has reached after so many attempts that did not end it.\<close>

definition after_calls :: "('st \<Rightarrow> 'a outcome \<times> 'st) \<Rightarrow> nat \<Rightarrow> 'st \<Rightarrow> 'st" where
  "after_calls f n st = ((\<lambda>s. snd (f s)) ^^ n) st"

lemma after_calls_0 [simp]: "after_calls f 0 st = st"
  by (simp add: after_calls_def)

lemma after_calls_Suc: "after_calls f (Suc n) st = after_calls f n (snd (f st))"
  by (simp add: after_calls_def funpow_Suc_right del: funpow.simps)

definition initialize_attempt ::
  "('s, 'w, 'v) ext \<Rightarrow> flags \<Rightarrow> mode \<Rightarrow> 's process \<times> 'w \<Rightarrow> unit outcome \<times> 's process \<times> 'w" where
  "initialize_attempt E fl sendUpd = InitializeManager E (flag_clusterNamespace fl) (flag_clusterName fl)
     (flag_version fl) (flag_clusterType fl) 5 (sendUpd = SendUpdates)"

lemma initializeManager_unfold:
  "initializeManager E fl sendUpd pw = (case initialize_attempt E fl sendUpd pw of
     (Ok _, pw1) \<Rightarrow> Some (Ok (), pw1)
   | (Err e, pw1) \<Rightarrow> initializeManager E fl sendUpd pw1
   | (Panic, pw1) \<Rightarrow> Some (Panic, pw1))"
  by (subst initializeManager.simps) (simp add: initialize_attempt_def)

lemma initialize_attempt_failed:
  assumes "initialize_attempt E fl sendUpd (p, w) = (Err e, p1, w1)"
  shows "managerInstance p1 = None \<and> length (dropped p1) = length (dropped p) + 1 \<and> evaluators p1 = evaluators p"
  using assms by (auto simp: initialize_attempt_def InitializeManager_def split: option.splits outcome.splits prod.splits)

lemma initializeManager_returns:
  "(\<And>i. i < n \<Longrightarrow> is_err (fst (initialize_attempt E fl sendUpd (after_calls (initialize_attempt E fl sendUpd) i (p, w))))) \<Longrightarrow>
   initialize_attempt E fl sendUpd (after_calls (initialize_attempt E fl sendUpd) n (p, w)) = (Ok (), p', w') \<Longrightarrow>
   managerInstance p = None \<Longrightarrow>
   initializeManager E fl sendUpd (p, w) = Some (Ok (), p', w') \<and>
   (\<exists>pn wn. after_calls (initialize_attempt E fl sendUpd) n (p, w) = (pn, wn) \<and> managerInstance pn = None \<and>
      length (dropped pn) = length (dropped p) + n \<and> evaluators pn = evaluators p)"
proof (induction n arbitrary: p w)
  case 0
  then show ?case by (subst initializeManager_unfold) simp
next
  case (Suc n)
  obtain e p1 w1 where first: "initialize_attempt E fl sendUpd (p, w) = (Err e, p1, w1)"
    using Suc.prems(1) [of 0]
    by (cases "initialize_attempt E fl sendUpd (p, w)"; cases "fst (initialize_attempt E fl sendUpd (p, w))") auto
  note failed = initialize_attempt_failed [OF first]
  have shift: "after_calls (initialize_attempt E fl sendUpd) (Suc i) (p, w) = after_calls (initialize_attempt E fl sendUpd) i (p1, w1)" for i
    using first by (simp add: after_calls_Suc)
  have "is_err (fst (initialize_attempt E fl sendUpd (after_calls (initialize_attempt E fl sendUpd) i (p1, w1))))" if "i < n" for i
    using Suc.prems(1) [of "Suc i"] that by (simp add: shift)
  from Suc.IH [OF this] Suc.prems(2) failed first show ?case
    by (subst initializeManager_unfold) (auto simp: shift)
qed

definition refused :: "string outcome \<Rightarrow> bool" where
  "refused x \<longleftrightarrow> (case x of Err e \<Rightarrow> IsUnauthorized e \<or> IsForbidden e | _ \<Rightarrow> False)"

lemma restartIfNeeded_unfold:
  "restartIfNeeded E w = (case GetKubernetesVersion E w of (x, w1) \<Rightarrow>
     if x = Panic then Some (Panic, w1) else if refused x then Some (Ok (), w1) else restartIfNeeded E w1)"
  by (subst restartIfNeeded.simps) (auto simp: refused_def split: outcome.split prod.split)

lemma restartIfNeeded_returns:
  "(\<And>i. i < n \<Longrightarrow> fst (GetKubernetesVersion E (after_calls (GetKubernetesVersion E) i w)) \<noteq> Panic \<and>
      \<not> refused (fst (GetKubernetesVersion E (after_calls (GetKubernetesVersion E) i w)))) \<Longrightarrow>
   GetKubernetesVersion E (after_calls (GetKubernetesVersion E) n w) = (x, w') \<Longrightarrow> refused x \<Longrightarrow>
   restartIfNeeded E w = Some (Ok (), w')"
proof (induction n arbitrary: w)
  case 0
  then show ?case by (subst restartIfNeeded_unfold) (auto simp: refused_def split: outcome.splits)
next
  case (Suc n)
  have "restartIfNeeded E (snd (GetKubernetesVersion E w)) = Some (Ok (), w')"
    using Suc.prems(1) [of "Suc _"] Suc.prems(2,3) by (intro Suc.IH) (auto simp: after_calls_Suc)
  with Suc.prems(1) [of 0] show ?case by (subst restartIfNeeded_unfold) (auto split: prod.splits)
qed

text \<open>The end of the loop, seen from its start.\<close>

definition refused_at :: "('s, 'w, 'v) ext \<Rightarrow> 'w \<Rightarrow> nat \<Rightarrow> 'w \<Rightarrow> bool" where
  "refused_at E w n w' \<longleftrightarrow>
     (\<forall>i < n. fst (GetKubernetesVersion E (after_calls (GetKubernetesVersion E) i w)) \<noteq> Panic \<and>
        \<not> refused (fst (GetKubernetesVersion E (after_calls (GetKubernetesVersion E) i w)))) \<and>
     (\<exists>x. GetKubernetesVersion E (after_calls (GetKubernetesVersion E) n w) = (x, w') \<and> refused x)"

lemma refused_at_0: "refused x \<Longrightarrow> GetKubernetesVersion E w = (x, w') \<Longrightarrow> refused_at E w 0 w'"
  by (simp add: refused_at_def)

lemma refused_at_Suc:
  assumes "GetKubernetesVersion E w = (x, w1)" and "x \<noteq> Panic" and "\<not> refused x" and "refused_at E w1 n w'"
  shows "refused_at E w (Suc n) w'"
  using assms by (auto simp: refused_at_def after_calls_Suc less_Suc_eq_0_disj)

lemma restartIfNeeded_refused:
  assumes "restartIfNeeded E w = Some y"
  shows "fst y = Ok () \<longrightarrow> (\<exists>n. refused_at E w n (snd y))"
proof (rule restartIfNeeded.raw_induct [where P = "\<lambda>E w y. fst y = Ok () \<longrightarrow> (\<exists>n. refused_at E w n (snd y))", OF _ assms],
    goal_cases)
  case (1 f E w y)
  obtain x w1 where x: "GetKubernetesVersion E w = (x, w1)" by fastforce
  show ?case
  proof (cases x)
    case (Ok v)
    then have "f E w1 = Some y" using 1(2) x by simp
    moreover have "x \<noteq> Panic" "\<not> refused x" using Ok by (simp_all add: refused_def)
    ultimately show ?thesis using 1(1) [of E w1 y] x by (auto intro: refused_at_Suc)
  next
    case (Err e)
    show ?thesis
    proof (cases "refused x")
      case True
      then have "y = (Ok (), w1)" using 1(2) x Err by (simp add: refused_def)
      with refused_at_0 [OF True x] show ?thesis by auto
    next
      case False
      then have "f E w1 = Some y" using 1(2) x Err by (simp add: refused_def)
      from 1(1) [OF this] x Err False show ?thesis by (auto intro: refused_at_Suc)
    qed
  next
    case Panic
    then show ?thesis using 1(2) x by auto
  qed
qed

lemma registerForLogSettings_result: "fst (registerForLogSettings C w) \<in> {NextIteration, Exit 1, MainPanic}"
  unfolding registerForLogSettings_def by (intro or_exit_result) auto

lemma main_iteration_result:
  assumes "main_iteration C fl (p, gs, w) = (res, p', gs', w')"
  shows "if res = NextIteration then managerInstance p' = None \<and> gs' = gs @ launches fl
    else res \<in> {Exit 1, MainPanic} \<and> (\<exists>rest. launches fl = drop (length gs) gs' @ rest \<and> take (length gs) gs' = gs)"
proof -
  obtain x gs1 w1 where x: "main_setup C fl (gs, w) = (x, gs1, w1)" using prod_cases3 by blast
  note begun = main_setup_launches [OF x refl]
  show ?thesis
  proof (cases "x = NextIteration")
    case True
    with begun x have gs1: "gs1 @ [GoInitializeManager (main_mode fl) (flag_clusterNamespace fl) (flag_clusterName fl) (flag_clusterType fl)] =
        gs @ launches fl" by (simp add: launches_def)
    obtain y p1 w2 where "mgr_Start C (getResourceSummaryReconcilier fl (main_mode fl)) (gs @ launches fl) (p, w1) = (y, p1, w2)"
      using prod_cases3 by blast
    with assms x True show ?thesis
      by (cases y) (auto simp: main_iteration_def launch_def gs1 GetManager_def Reset_def split: option.splits)
  next
    case False
    with assms x have "res = x" "gs' = gs1" by (auto simp: main_iteration_def split: main_result.splits)
    with False begun show ?thesis by (auto simp: launches_def split: if_splits)
  qed
qed

text \<open>What has been launched: whole iterations, and a first part of one if the process has ended in it.\<close>

lemma main_loop_result:
  "main_loop C fl fuel (p, gs, w) = (res, p', gs', w') \<Longrightarrow> managerInstance p = None \<Longrightarrow>
     (case res of
        None \<Rightarrow> managerInstance p' = None \<and> gs' = gs @ concat (replicate fuel (launches fl))
      | Some r \<Rightarrow> r \<in> {Exit 1, MainPanic} \<and>
          (\<exists>n < fuel. \<exists>ys zs. launches fl = ys @ zs \<and> gs' = gs @ concat (replicate n (launches fl)) @ ys))"
proof (induction fuel arbitrary: p gs w)
  case (Suc fuel)
  obtain x p1 gs1 w1 where it: "main_iteration C fl (p, gs, w) = (x, p1, gs1, w1)" using prod_cases4 by blast
  note one = main_iteration_result [OF it]
  show ?case
  proof (cases "x = NextIteration")
    case True
    with one have p1: "managerInstance p1 = None" and gs1: "gs1 = gs @ launches fl" by simp_all
    from Suc.prems(1) it True have "main_loop C fl fuel (p1, gs1, w1) = (res, p', gs', w')" by simp
    from Suc.IH [OF this p1] show ?thesis
    proof (cases res)
      case (Some r)
      with Suc.IH [OF \<open>main_loop C fl fuel (p1, gs1, w1) = (res, p', gs', w')\<close> p1] obtain n ys zs where
        "r \<in> {Exit 1, MainPanic}" "n < fuel" "launches fl = ys @ zs"
        "gs' = gs @ concat (replicate (Suc n) (launches fl)) @ ys" by (auto simp: gs1)
      with Some show ?thesis by (auto intro!: exI [of _ "Suc n"])
    qed (simp add: gs1)
  next
    case False
    with Suc.prems(1) it have res: "res = Some x" "gs' = gs1" by (auto split: main_result.splits)
    from False one obtain rest where "x \<in> {Exit 1, MainPanic}" "launches fl = drop (length gs) gs1 @ rest"
      "gs1 = gs @ drop (length gs) gs1" by (metis append_take_drop_id)
    with res show ?thesis by (auto intro!: exI [of _ 0])
  qed
qed auto

lemma main_loop_more:
  "main_loop C fl fuel pw = (Some r, pw') \<Longrightarrow> main_loop C fl (fuel + k) pw = (Some r, pw')"
  by (induction fuel arbitrary: pw) (auto split: main_result.splits prod.splits)

section \<open>Properties\<close>

text \<open>
  (C27) Initialisation is tried until it succeeds. If the first attempts fail and a later one succeeds,
  the loop ends with it: the manager exists with its invariant, one evaluation goroutine has been
  started, and each failed attempt has left one dropped manager behind.
\<close>

theorem initialization_retried:
  assumes "libset E" and "managerInstance p = None"
    and "\<And>i. i < n \<Longrightarrow> is_err (fst (initialize_attempt E fl md (after_calls (initialize_attempt E fl md) i (p, w))))"
    and "initialize_attempt E fl md (after_calls (initialize_attempt E fl md) n (p, w)) = (Ok (), p', w')"
  shows "initializeManager E fl md (p, w) = Some (Ok (), p', w') \<and> (\<exists>m. GetManager p' = Ok m \<and> manager_inv E m) \<and>
    evaluators p' = evaluators p + 1 \<and> length (dropped p') = length (dropped p) + n"
proof -
  note r = initializeManager_returns [OF assms(3,4,2)]
  then obtain pn wn where pn: "after_calls (initialize_attempt E fl md) n (p, w) = (pn, wn)" "managerInstance pn = None"
      "length (dropped pn) = length (dropped p) + n" "evaluators pn = evaluators p" by blast
  have last: "InitializeManager E (flag_clusterNamespace fl) (flag_clusterName fl) (flag_version fl) (flag_clusterType fl)
      5 (md = SendUpdates) (pn, wn) = (Ok (), p', w')"
    using assms(4) pn(1) by (simp add: initialize_attempt_def)
  have "dropped p' = dropped pn" using last pn(2)
    by (auto simp: InitializeManager_def split: outcome.splits prod.splits)
  with initialize_once [OF assms(1) pn(2) last] r pn show ?thesis by simp
qed

text \<open>A cluster that refuses the first list of the ResourceSummaries, and remembers it.\<close>

definition ex_flaky :: "(objref list, ref_cluster, ref_value) ext" where
  "ex_flaky = ref_ext\<lparr>client_List := (\<lambda>w. if c_version w = None
     then (Err (GoErr COther ''timeout''), w\<lparr>c_version := Some []\<rparr>) else client_List ref_ext w)\<rparr>"

theorem initialization_retried_witness:
  "\<exists>p' w' m. initializeManager ex_flaky initFlags DoNotSendUpdates (ex_process, ex_restart_cluster) = Some (Ok (), p', w') \<and>
     GetManager p' = Ok m \<and> length (dropped p') = 1"
proof -
  let ?attempt = "initialize_attempt ex_flaky initFlags DoNotSendUpdates"
  let ?w = "ex_restart_cluster\<lparr>c_version := Some []\<rparr>"
  have set: "libset ex_flaky" by unfold_locales (auto simp: ex_flaky_def ref_ext_def elems_def)
  have none: "managerInstance ex_process = None" by (simp add: ex_process_def)
  have "\<exists>e p1. ?attempt (ex_process, ex_restart_cluster) = (Err e, p1, ?w) \<and> managerInstance p1 = None"
    by (simp add: initialize_attempt_def InitializeManager_def none readResourceSummaries_def ex_flaky_def
        ex_restart_cluster_def ex_cluster_def)
  then obtain e p1 where one: "?attempt (ex_process, ex_restart_cluster) = (Err e, p1, ?w)" "managerInstance p1 = None" by blast
  have "\<exists>p' w'. ?attempt (p1, ?w) = (Ok (), p', w')"
    by (simp add: initialize_attempt_def InitializeManager_def one(2) readResourceSummaries_def readResourceSummary_def
        processResourceHashes.simps(2) ex_flaky_def ex_restart_cluster_def ex_written_def run)
  then obtain p' w' where two: "?attempt (p1, ?w) = (Ok (), p', w')" by blast
  have "is_err (fst (?attempt (after_calls ?attempt i (ex_process, ex_restart_cluster))))" if "i < 1" for i
    using that one by simp
  moreover have "?attempt (after_calls ?attempt 1 (ex_process, ex_restart_cluster)) = (Ok (), p', w')"
    using one two by (simp add: after_calls_def)
  ultimately show ?thesis
    using initialization_retried [OF set none, of 1 initFlags DoNotSendUpdates ex_restart_cluster p' w']
    by (auto simp: ex_process_def)
qed

text \<open>
  (C28) The context is cancelled exactly when the API server has refused a request for its version: the
  watch loop returns if and only if some call is answered with "unauthorized" or "forbidden" and no
  earlier one was; other errors do not end it.
\<close>

theorem restart_exactly_when_refused:
  "restartIfNeeded E w = Some (Ok (), w') \<longleftrightarrow> (\<exists>n. refused_at E w n w')"
proof
  assume "restartIfNeeded E w = Some (Ok (), w')"
  then show "\<exists>n. refused_at E w n w'" using restartIfNeeded_refused by force
next
  assume "\<exists>n. refused_at E w n w'"
  then show "restartIfNeeded E w = Some (Ok (), w')" unfolding refused_at_def by (metis restartIfNeeded_returns)
qed

text \<open>
  (C29) The main loop ends by a failure only. Once the flags are parsed, the process ends with exit code
  1 or a panic and never with success; it has then ended for every larger number of iterations too. As
  long as it has not ended, every iteration has left no drift detection manager and has launched, in
  this order, the goroutine that watches for an expired token, if the program runs in the management
  cluster, and the one that initialises the drift detection manager with the flags' cluster; when it
  ends, the last iteration has launched a first part of these.
\<close>

theorem main_ends_by_failure:
  assumes "managerInstance p = None" and "pflag_Parse C initFlags = Inr fl" and "main C fuel (p, gs, w) = (res, p', gs', w')"
    and "started = (if deployedCluster fl \<noteq> managedCluster then [GoRestartIfNeeded] else []) @
      [GoInitializeManager (main_mode fl) (flag_clusterNamespace fl) (flag_clusterName fl) (flag_clusterType fl)]"
  shows "case res of
      None \<Rightarrow> managerInstance p' = None \<and> gs' = gs @ concat (replicate fuel started)
    | Some r \<Rightarrow> r \<in> {Exit 1, MainPanic} \<and> main C (fuel + k) (p, gs, w) = (res, p', gs', w') \<and>
        (\<exists>n ys zs. n \<le> fuel \<and> started = ys @ zs \<and> gs' = gs @ concat (replicate n started) @ ys)"
proof (cases "InitScheme C")
  case (Ok a)
  have started: "started = launches fl" by (simp add: assms(4) launches_def)
  obtain x w1 where x: "registerForLogSettings C w = (x, w1)" by fastforce
  have "x \<in> {NextIteration, Exit 1, MainPanic}" using registerForLogSettings_result [of C w] x by simp
  moreover have ?thesis if "x = NextIteration"
  proof -
    have run: "main_loop C fl fuel (p, gs, w1) = (res, p', gs', w')" using assms Ok x that by (simp add: main_def)
    have more: "main C (fuel + k) (p, gs, w) = main_loop C fl (fuel + k) (p, gs, w1)"
      using assms(2) Ok x that by (simp add: main_def)
    note result = main_loop_result [OF run assms(1)]
    show ?thesis
    proof (cases res)
      case None
      with result show ?thesis by (simp add: started)
    next
      case (Some r)
      with result more main_loop_more [OF run [unfolded Some], of k] show ?thesis
        by (auto simp: started dest: less_imp_le)
    qed
  qed
  moreover have ?thesis if "x \<noteq> NextIteration" "x \<in> {Exit 1, MainPanic}"
    using assms(1-3) Ok x that by (auto simp: main_def intro!: exI [of _ 0])
  ultimately show ?thesis by blast
qed (use assms(1-3) in \<open>auto simp: main_def intro!: exI [of _ 0]\<close>)

text \<open>
  A runtime whose manager, when started, runs the last goroutine launched if it is the one that initialises
  the drift detection manager, and is then cancelled.
\<close>

definition ref_mgr_Start ::
  "objref list reconciler \<Rightarrow> goroutine list \<Rightarrow> objref list process \<times> ref_cluster
     \<Rightarrow> unit outcome \<times> objref list process \<times> ref_cluster" where
  "ref_mgr_Start R gs pw = (Ok (), case last gs of
     GoInitializeManager md cNamespace cName cType \<Rightarrow>
       snd (InitializeManager ref_ext cNamespace cName [] cType 5 (md = SendUpdates) pw)
   | GoRestartIfNeeded \<Rightarrow> pw)"

definition ref_runtime :: "(objref list, ref_cluster, unit) runtime" where
  "ref_runtime = \<lparr>clientgoscheme_AddToScheme = Ok (), clusterv1_AddToScheme = Ok (), libsveltos_AddToScheme = Ok (),
     pflag_Parse = (\<lambda>fl. Inr (fl\<lparr>deployedCluster := ''management-cluster''\<rparr>)), ComponentDriftDetectionManager = ''DriftDetectionManager'',
     RegisterForLogSettings = (\<lambda>_ _ w. w), GetConfigOrDie = (\<lambda>w. (Ok (), w)), client_New = (\<lambda>_ w. (Ok (), w)),
     GetKubernetesRestConfig = (\<lambda>_ _ _ w. (Ok (), w)), set_QPS_Burst = (\<lambda>_ _ c. c),
     ctrl_NewManager = (\<lambda>_ _ w. (Ok (), w)), controller_Build = (\<lambda>_ _ w. (Ok (), w)),
     AddHealthzCheck = (\<lambda>w. (Ok (), w)), AddReadyzCheck = (\<lambda>w. (Ok (), w)), mgr_Start = ref_mgr_Start\<rparr>"

theorem main_ends_by_failure_witness:
  "\<exists>p' w'. main ref_runtime 1 (ex_process, [], ex_cluster) =
      (None, p', [GoRestartIfNeeded, GoInitializeManager DoNotSendUpdates [] [] []], w') \<and>
    managerInstance p' = None \<and> dropped p' \<noteq> []"
proof -
  let ?fl = "initFlags\<lparr>deployedCluster := ''management-cluster''\<rparr>"
  have none: "managerInstance ex_process = None" and parse: "pflag_Parse ref_runtime initFlags = Inr ?fl"
    by (simp_all add: ex_process_def ref_runtime_def)
  have "\<exists>p' gs' w'. main ref_runtime 1 (ex_process, [], ex_cluster) = (None, p', gs', w') \<and> dropped p' \<noteq> []"
    by (simp add: main_def InitScheme_def registerForLogSettings_def main_iteration_def main_setup_def setupChecks_def
        getManagedClusterRestConfig_def on_cluster_def launch_def managedCluster_def
        SetupWithManager_def ref_runtime_def ref_mgr_Start_def initFlags_def InitializeManager_def ex_process_def
        readResourceSummaries_def readResourceSummary_def GetManager_def Reset_def run)
  then obtain p' gs' w' where m: "main ref_runtime 1 (ex_process, [], ex_cluster) = (None, p', gs', w')" "dropped p' \<noteq> []" by blast
  with main_ends_by_failure [OF none parse this(1) refl] show ?thesis
    by (simp add: managedCluster_def main_mode_def initFlags_def)
qed

end
