(* ===== verification/System.thy ===== *)
theory System
  imports Interleaving Main_Loop
begin

text \<open>
  The components together: the package's manager, the evaluation goroutine and the cluster. The steps are
  those of the theory on interleavings, on the manager that is the package's instance; beside them an
  attempt to create the manager and a restart. What a reconciliation does to the manager is a run of
  these steps, and so is a pass over the queue that nobody interrupts.
\<close>

section \<open>The steps of the system\<close>

text \<open>
  The evaluator is the goroutine of the present instance. Creating the manager is one step: it holds the
  lock without which nobody else gets at the instance, and the notifications that the informers it
  starts may deliver meanwhile only queue resources. A panic ends the process. A dropped manager is out of
  reach of the steps on the instance; what its goroutine still does to the cluster are changes of the
  cluster.
\<close>

record ('s, 'w, 'v) system =
  sys_process :: "'s process"
  sys_evaluator :: "('s, 'v) pass_pc"
  sys_cluster :: 'w

definition with_instance ::
  "('s, 'v) pass_pc \<times> 's manager \<times> 'w \<Rightarrow> ('s, 'w, 'v) system \<Rightarrow> ('s, 'w, 'v) system" where
  "with_instance = (\<lambda>(pc, m, w) s.
     s\<lparr>sys_process := (sys_process s)\<lparr>managerInstance := Some m\<rparr>, sys_evaluator := pc, sys_cluster := w\<rparr>)"

inductive sys_step :: "('s, 'w, 'v) ext \<Rightarrow> flags \<Rightarrow> ('s, 'w, 'v) system \<Rightarrow> ('s, 'w, 'v) system \<Rightarrow> bool" for E fl where
  initialize: "managerInstance (sys_process s) = None \<Longrightarrow> x \<noteq> Panic \<Longrightarrow>
    initialize_attempt E fl (main_mode fl) (sys_process s, sys_cluster s) = (x, p', w') \<Longrightarrow>
    sys_step E fl s (s\<lparr>sys_process := p', sys_evaluator := Sleeping, sys_cluster := w'\<rparr>)"
| on_instance: "managerInstance (sys_process s) = Some m \<Longrightarrow> istep E (sys_evaluator s, m, sys_cluster s) st \<Longrightarrow>
    sys_step E fl s (with_instance st s)"
| cluster: "sys_step E fl s (s\<lparr>sys_cluster := w'\<rparr>)"
| restart: "managerInstance (sys_process s) \<noteq> None \<Longrightarrow> sys_step E fl s (s\<lparr>sys_process := Reset (sys_process s)\<rparr>)"

definition sys_start :: "'w \<Rightarrow> ('s, 'w, 'v) system" where
  "sys_start w = \<lparr>sys_process = \<lparr>managerInstance = None, evaluators = 0, waitGroup = 0, versionToStore = None, dropped = []\<rparr>,
     sys_evaluator = Sleeping, sys_cluster = w\<rparr>"

text \<open>The states reached by steps of which some may be excluded.\<close>

inductive sys_reach ::
  "('s, 'w, 'v) ext \<Rightarrow> flags \<Rightarrow> (('s, 'w, 'v) system \<Rightarrow> ('s, 'w, 'v) system \<Rightarrow> bool) \<Rightarrow> ('s, 'w, 'v) system \<Rightarrow> bool"
  for E fl excluded where
  start: "sys_reach E fl excluded (sys_start w)"
| next_step: "sys_reach E fl excluded s \<Longrightarrow> sys_step E fl s s' \<Longrightarrow> \<not> excluded s s' \<Longrightarrow> sys_reach E fl excluded s'"

text \<open>
  The race as a step of the system: the resource under evaluation loses its hash between the moment the
  evaluation reads it and the moment it stores a new one.
\<close>

definition race :: "('s, 'w, 'v) system \<Rightarrow> ('s, 'w, 'v) system \<Rightarrow> bool" where
  "race s s' \<longleftrightarrow> (\<exists>m m' r. managerInstance (sys_process s) = Some m \<and> managerInstance (sys_process s') = Some m' \<and>
     pending (sys_evaluator s) = Some r \<and> resourceHashes m r \<noteq> None \<and> resourceHashes m' r = None)"

section \<open>The invariants\<close>

context libset
begin

lemma initialize_attempt_inv:
  assumes "managerInstance p = None" and "initialize_attempt E fl md (p, w) = (x, p', w')" and "managerInstance p' = Some m"
  shows "manager_inv E m"
proof -
  let ?m = "newManager E (flag_clusterNamespace fl) (flag_clusterName fl) (flag_clusterType fl) 5 (md = SendUpdates)"
  obtain y m1 w1 where read: "readResourceSummaries E (?m, w) = (y, m1, w1)" using prod_cases3 by blast
  obtain z w2 where z: "client_List E w = (z, w2)" by fastforce
  have "manager_inv E m1" using read z newManager_inv readEach_inv [OF newManager_inv]
    by (cases z) (auto simp: readResourceSummaries_def)
  with read assms show ?thesis
    by (cases y) (auto simp: initialize_attempt_def InitializeManager_def Let_def)
qed

text \<open>Two invariants of the instance: one that every step keeps, and one that every step but the race keeps.\<close>

lemma sys_step_inv:
  assumes "sys_step E fl s s'" and "\<forall>m. managerInstance (sys_process s) = Some m \<longrightarrow> shared_inv E m"
    and "managerInstance (sys_process s') = Some m'"
  shows "shared_inv E m'"
  using assms
proof (induction rule: sys_step.induct)
  case (initialize s x p' w')
  show ?case
    by (rule manager_inv_shared, rule initialize_attempt_inv [OF initialize.hyps(1,3)]) (use initialize.prems(2) in simp)
next
  case (on_instance s m st)
  then show ?case using istep_shared_inv [of _ st] by (auto simp: with_instance_def split: prod.splits)
qed (auto simp: Reset_def split: option.splits)

lemma sys_step_quiet:
  assumes "sys_step E fl s s'"
    and "\<forall>m. managerInstance (sys_process s) = Some m \<longrightarrow> quiet_inv E (sys_evaluator s, m, sys_cluster s)"
    and "\<not> race s s'" and "managerInstance (sys_process s') = Some m'"
  shows "quiet_inv E (sys_evaluator s', m', sys_cluster s')"
  using assms
proof (induction rule: sys_step.induct)
  case (initialize s x p' w')
  have "manager_inv E m'" by (rule initialize_attempt_inv [OF initialize.hyps(1,3)]) (use initialize.prems(3) in simp)
  then show ?case by (intro quiet_invI) simp_all
next
  case (on_instance s m st)
  obtain pc m2 w2 where st: "st = (pc, m2, w2)" by (metis prod.exhaust)
  with on_instance have m': "m' = m2" by (simp add: with_instance_def)
  have "\<not> hash_lost (sys_evaluator s, m, sys_cluster s) st"
    using on_instance by (auto simp: st hash_lost_def race_def with_instance_def)
  with on_instance istep_quiet have "quiet_inv E st" by blast
  then show ?case by (simp add: st m' with_instance_def)
qed (auto simp: quiet_inv_def Reset_def split: option.splits)

lemma sys_reach_inv: "sys_reach E fl excluded s \<Longrightarrow> managerInstance (sys_process s) = Some m \<Longrightarrow> shared_inv E m"
proof (induction arbitrary: m rule: sys_reach.induct)
  case (next_step s s')
  then show ?case using sys_step_inv by blast
qed (simp add: sys_start_def)

lemma sys_reach_quiet:
  "sys_reach E fl race s \<Longrightarrow> managerInstance (sys_process s) = Some m \<Longrightarrow> quiet_inv E (sys_evaluator s, m, sys_cluster s)"
proof (induction arbitrary: m rule: sys_reach.induct)
  case (next_step s s')
  then show ?case using sys_step_quiet by blast
qed (simp add: sys_start_def)

end

section \<open>A reconciliation as a run\<close>

text \<open>What a client may do to a manager: register and unregister, any number of times.\<close>

inductive client_run :: "('s, 'w, 'v) ext \<Rightarrow> 's manager \<Rightarrow> 's manager \<Rightarrow> bool" for E m where
  none: "client_run E m m"
| register: "client_run E m m1 \<Longrightarrow> RegisterResource E r t (rs, m1, w) = (x, rs1, m2, w1) \<Longrightarrow> client_run E m m2"
| unregister: "client_run E m m1 \<Longrightarrow> UnRegisterResource E r t (rs, m1) = (y, rs1, m2) \<Longrightarrow> client_run E m m2"

lemma client_run_trans: "client_run E m1 m2 \<Longrightarrow> client_run E m m1 \<Longrightarrow> client_run E m m2"
  by (induction rule: client_run.induct) (auto intro: client_run.register client_run.unregister)

lemma register_loop_run:
  "register_loop ref (\<lambda>r. RegisterResource E r t) xs hs (rs, m, w) = (x, rs1, m', w') \<Longrightarrow> client_run E m m'"
proof (induction xs arbitrary: rs m w hs)
  case (Cons y ys)
  obtain z rs2 m2 w2 where z: "RegisterResource E (ref y) t (rs, m, w) = (z, rs2, m2, w2)" using prod_cases4 by blast
  have one: "client_run E m m2" by (rule client_run.register [OF client_run.none z])
  have rest: "client_run E m m'"
    if "register_loop ref (\<lambda>r. RegisterResource E r t) ys hs' (rs2, m2, w2) = (x, rs1, m', w')" for hs'
    by (rule client_run_trans [OF Cons.IH [OF that] one])
  show ?case
  proof (cases "res_IgnoreForConfigurationDrift y")
    case True
    with Cons show ?thesis by simp
  next
    case False
    with Cons.prems z rest one show ?thesis by (cases z) (auto split: if_splits)
  qed
qed (simp add: client_run.none)

lemma unregister_list_run:
  "for_each (\<lambda>r. UnRegisterResource E r t) refs (rs, m) = (x, rs1, m') \<Longrightarrow> client_run E m m'"
proof (induction refs arbitrary: rs m)
  case (Cons r refs)
  obtain y rs2 m2 where y: "UnRegisterResource E r t (rs, m) = (y, rs2, m2)" using prod_cases3 by blast
  have one: "client_run E m m2" by (rule client_run.unregister [OF client_run.none y])
  have "client_run E m m'" if "for_each (\<lambda>r. UnRegisterResource E r t) refs (rs2, m2) = (x, rs1, m')"
    by (rule client_run_trans [OF Cons.IH [OF that] one])
  with Cons.prems y one show ?case by (cases y) auto
qed (simp add: client_run.none)

text \<open>The same on the package's variables: there is an instance afterwards if there was one before.\<close>

definition moved :: "('s, 'w, 'v) ext \<Rightarrow> 's process \<Rightarrow> 's process \<Rightarrow> bool" where
  "moved E p p' \<longleftrightarrow> p' = p \<or> (\<exists>m m'. managerInstance p = Some m \<and> client_run E m m' \<and> p' = p\<lparr>managerInstance := Some m'\<rparr>)"

lemma process_set_same: "managerInstance p = Some m \<Longrightarrow> p\<lparr>managerInstance := Some m\<rparr> = p"
  by simp

lemma moved_refl [simp]: "moved E p p"
  by (simp add: moved_def)

lemma moved_run:
  assumes "moved E p p1" and "GetManager p1 = Ok m1" and "client_run E m1 m2"
  shows "moved E p (p1\<lparr>managerInstance := Some m2\<rparr>)"
proof -
  have m1: "managerInstance p1 = Some m1" using assms(2) by (simp add: GetManager_def split: option.splits)
  from assms(1) show ?thesis unfolding moved_def
  proof (elim disjE exE conjE)
    fix m m' assume m: "managerInstance p = Some m" and run: "client_run E m m'" and p1: "p1 = p\<lparr>managerInstance := Some m'\<rparr>"
    with m1 have "client_run E m m2" using client_run_trans [OF assms(3)] by simp
    moreover have "p1\<lparr>managerInstance := Some m2\<rparr> = p\<lparr>managerInstance := Some m2\<rparr>" by (simp add: p1)
    ultimately show "p1\<lparr>managerInstance := Some m2\<rparr> = p \<or> (\<exists>m m'. managerInstance p = Some m \<and> client_run E m m' \<and>
        p1\<lparr>managerInstance := Some m2\<rparr> = p\<lparr>managerInstance := Some m'\<rparr>)" using m by blast
  qed (use assms(3) m1 in blast)
qed

lemma unregisterResources_moved:
  assumes "moved E p0 p" and "unregisterResources E refs t (rs, p) = (x, rs1, p1)"
  shows "moved E p0 p1"
proof (cases "GetManager p")
  case (Ok m)
  obtain y rs2 m2 where loop: "for_each (\<lambda>r. UnRegisterResource E r t) refs (rs, m) = (y, rs2, m2)" using prod_cases3 by blast
  have "moved E p0 (p\<lparr>managerInstance := Some m2\<rparr>)" by (rule moved_run [OF assms(1) Ok unregister_list_run [OF loop]])
  with loop assms(2) Ok show ?thesis by (auto simp: unregisterResources_def)
qed (use assms in \<open>auto simp: unregisterResources_def\<close>)

lemma registerResources_moved:
  assumes "moved E p0 p" and "registerResources E xs t (rs, p, w) = (x, rs1, p1, w1)"
  shows "moved E p0 p1"
proof (cases "GetManager p")
  case (Ok m)
  obtain y rs2 m2 w2 where loop: "register_loop (getObjectRef E) (\<lambda>r. RegisterResource E r t) xs [] (rs, m, w) = (y, rs2, m2, w2)"
    using prod_cases4 by blast
  have "moved E p0 (p\<lparr>managerInstance := Some m2\<rparr>)" by (rule moved_run [OF assms(1) Ok register_loop_run [OF loop]])
  with loop assms(2) Ok show ?thesis by (auto simp: registerResources_def)
qed (use assms in \<open>auto simp: registerResources_def\<close>)

text \<open>What a reconciliation has done so far, as a property of its state.\<close>

definition st_moved :: "('s, 'w, 'v) ext \<Rightarrow> 's process \<Rightarrow> ('s, 'w) rstate \<Rightarrow> bool" where
  "st_moved E p0 st \<longleftrightarrow> moved E p0 (fst (snd (snd st)))"

lemma st_moved_simp [simp]: "st_moved E p0 (rs, R, p, w) \<longleftrightarrow> moved E p0 p"
  by (simp add: st_moved_def)

lemma st_moved_and_then:
  "st_moved E p0 (snd r) \<Longrightarrow> (\<And>a s. st_moved E p0 s \<Longrightarrow> st_moved E p0 (snd (k a s))) \<Longrightarrow> st_moved E p0 (snd (and_then r k))"
  by (rule and_then_state)

lemma cleanMap_moved:
  assumes "st_moved E p0 st"
  shows "st_moved E p0 (snd (cleanMap E t st))"
proof -
  obtain rs R p w where st: "st = (rs, R, p, w)" by (metis prod.exhaust)
  obtain v rs1 R1 where v: "getMapValue E t (rs, R) = (v, rs1, R1)" using prod_cases3 by blast
  define un where "un old = (case old of None \<Rightarrow> (Ok (), rs1, p) | Some s \<Rightarrow> unregisterResources E (set_Items E s) t (rs1, p))" for old
  have inv: "moved E p0 p2" if "un old = (y, rs2, p2)" for old y rs2 p2
    using that assms unregisterResources_moved [of E p0 p] by (auto simp: un_def st split: option.splits)
  show ?thesis
  proof (cases v)
    case (Ok old)
    obtain y rs2 p2 where y: "un old = (y, rs2, p2)" using prod_cases3 by blast
    obtain z rs3 R3 where z: "removeMapEntry E t (rs2, R1) = (z, rs3, R3)" using prod_cases3 by blast
    from Ok st v z y [unfolded un_def] inv [OF y] show ?thesis by (cases y) (simp_all add: cleanMap_def)
  qed (use assms st v in \<open>simp_all add: cleanMap_def\<close>)
qed

lemma updateMapsForResourceType_moved:
  assumes "st_moved E p0 st"
  shows "st_moved E p0 (snd (updateMapsForResourceType E xs old t st))"
proof -
  obtain rs R p w where st: "st = (rs, R, p, w)" by (metis prod.exhaust)
  obtain v rs1 p1 w1 where v: "registerResources E xs t (rs, p, w) = (v, rs1, p1, w1)" using prod_cases4 by blast
  have p1: "moved E p0 p1" by (rule registerResources_moved [OF _ v]) (use assms st in simp)
  define un where "un cur = (case old of None \<Rightarrow> (Ok (), rs1, p1) | Some o' \<Rightarrow> unregisterResources E (set_Difference E o' cur) t (rs1, p1))" for cur
  have inv: "moved E p0 p2" if "un cur = (y, rs2, p2)" for cur y rs2 p2
    using that p1 unregisterResources_moved [of E p0 p1] by (auto simp: un_def split: option.splits)
  let ?cur = "fold (\<lambda>x. set_Insert E (getObjectRef E x)) xs (set_new E)"
  obtain y rs2 p2 where y: "un ?cur = (y, rs2, p2)" using prod_cases3 by blast
  show ?thesis
  proof (cases v)
    case (Ok rhs)
    obtain z rs3 R3 where z: "setMapValue E t ?cur (setStatusHashes t rhs rs2, R) = (z, rs3, R3)" using prod_cases3 by blast
    from Ok st v z y [unfolded un_def] inv [OF y] show ?thesis by (cases y) (simp_all add: updateMapsForResourceType_def)
  qed (use p1 st v in \<open>simp_all add: updateMapsForResourceType_def\<close>)
qed

lemma updateMap_moved:
  assumes "st_moved E p0 st"
  shows "st_moved E p0 (snd (updateMap E xs t st))"
proof -
  obtain rs R p w where st: "st = (rs, R, p, w)" by (metis prod.exhaust)
  obtain v rs1 R1 where v: "getMapValue E t (rs, R) = (v, rs1, R1)" using prod_cases3 by blast
  show ?thesis
    by (cases v) (use assms st v updateMapsForResourceType_moved [of E p0 "(rs1, R1, p, w)"] in \<open>simp_all add: updateMap_def\<close>)
qed

lemma cleanMaps_moved: "st_moved E p0 st \<Longrightarrow> st_moved E p0 (snd (cleanMaps E st))"
  unfolding cleanMaps_def by (intro st_moved_and_then cleanMap_moved)

lemma updateMaps_moved:
  assumes "st_moved E p0 st"
  shows "st_moved E p0 (snd (updateMapsAndResourceSummaryStatus E st))"
proof -
  obtain rs R p w where st: "st = (rs, R, p, w)" by (metis prod.exhaust)
  obtain v R1 w1 where v: "getHelmResources E rs (R, w) = (v, R1, w1)" using prod_cases3 by blast
  have "st_moved E p0 (snd (and_then (updateMap E a Resource (rs, R1, p, w1)) (\<lambda>_ st1.
      and_then (updateMap E b KustomizeResource st1) (\<lambda>_ st2. updateMap E c HelmResource st2))))" for a b c
    by (intro st_moved_and_then updateMap_moved) (use assms st in simp_all)
  with assms st v show ?thesis by (cases v) (simp_all add: updateMapsAndResourceSummaryStatus_def Let_def)
qed

lemma reconcileDelete_moved: "st_moved E p0 st \<Longrightarrow> st_moved E p0 (snd (reconcileDelete E st))"
  unfolding reconcileDelete_def by (rule st_moved_and_then) (auto intro: cleanMaps_moved split: prod.splits)

lemma reconcileNormal_moved:
  assumes "st_moved E p0 st"
  shows "st_moved E p0 (snd (reconcileNormal E st))"
proof -
  obtain rs R p w where st: "st = (rs, R, p, w)" by (metis prod.exhaust)
  obtain v rs1 w1 where v: "addFinalizer E (rs, w) = (v, rs1, w1)" using prod_cases3 by blast
  show ?thesis
    by (cases v) (use assms st v updateMaps_moved [of E p0 "(rs1, R, p, w1)"] updateMaps_moved [of E p0 "(rs, R, p, w)"] in
        \<open>simp_all add: reconcileNormal_def\<close>)
qed

lemma Reconcile_moved:
  assumes "moved E p0 p" and "Reconcile E ns n (R, p, w) = (x, R', p', w')"
  shows "moved E p0 p'"
proof -
  obtain v w1 where v: "client_Get E ns n w = (v, w1)" by fastforce
  show ?thesis
  proof (cases v)
    case (Ok rs)
    let ?params = "\<lparr>params_Client = Some (), params_ResourceSummary = Some rs, params_ControllerName = ''resourceSummary''\<rparr>"
    obtain sc w2 where sc: "NewResourceSummaryScope E ?params w1 = (sc, w2)" by fastforce
    let ?body = "if rs_DeletionTimestamp rs \<noteq> None then reconcileDelete E (rs, R, p, w2) else reconcileNormal E (rs, R, p, w2)"
    obtain y rs3 R3 p3 w3 where body: "?body = (y, rs3, R3, p3, w3)" by (metis prod.exhaust)
    have p3: "moved E p0 p3"
      using reconcileDelete_moved [of E p0 "(rs, R, p, w2)"] reconcileNormal_moved [of E p0 "(rs, R, p, w2)"] assms(1) body
      by (auto split: if_splits)
    show ?thesis
    proof (cases sc)
      case (Ok s)
      obtain c w4 where "scope_Close E (s\<lparr>scope_ResourceSummary := rs3\<rparr>) w3 = (c, w4)" by fastforce
      with \<open>v = Ok rs\<close> Ok v sc body p3 assms(2) show ?thesis
        by (cases c) (auto simp: Reconcile_def simp del: if_split split: outcome.splits if_splits)
    qed (use \<open>v = Ok rs\<close> v sc assms in \<open>auto simp: Reconcile_def\<close>)
  qed (use v assms in \<open>auto simp: Reconcile_def split: if_splits\<close>)
qed

section \<open>The operations as runs of the system\<close>

text \<open>A run of the interleavings is a run of the system, on the instance.\<close>

lemma with_instance_same:
  "managerInstance (sys_process s) = Some m \<Longrightarrow> with_instance (sys_evaluator s, m, sys_cluster s) s = s"
  by (simp add: with_instance_def)

lemma sys_reach_ireach:
  assumes "ireach E (sys_evaluator s, m, sys_cluster s) st" and "managerInstance (sys_process s) = Some m"
    and "sys_reach E fl (\<lambda>_ _. False) s"
  shows "sys_reach E fl (\<lambda>_ _. False) (with_instance st s)"
  using assms(1)
proof (induction rule: ireach.induct)
  case start
  then show ?case using assms(2,3) by (simp add: with_instance_same)
next
  case (next_step st1 st2)
  obtain pc m1 w where st1: "st1 = (pc, m1, w)" by (metis prod.exhaust)
  have "sys_step E fl (with_instance st1 s) (with_instance st2 (with_instance st1 s))"
    by (rule sys_step.on_instance [of _ m1]) (use next_step.hyps(2) in \<open>simp_all add: st1 with_instance_def\<close>)
  moreover have "with_instance st2 (with_instance st1 s) = with_instance st2 s"
    by (cases st2) (simp add: st1 with_instance_def)
  ultimately show ?case using next_step.IH by (metis sys_reach.next_step)
qed

lemma ireach_client_run: "client_run E m m' \<Longrightarrow> ireach E (pc, m, w0) (pc, m', w')"
proof (induction arbitrary: w' rule: client_run.induct)
  case none
  then show ?case by (rule ireach_step [OF istep.cluster])
next
  case (register m1 r t rs w x rs1 m2 w1)
  have "ireach E (pc, m, w0) (pc, m2, w1)" by (rule ireach.next_step [OF register.IH istep.register [OF register.hyps(2)]])
  then show ?case by (rule ireach.next_step [OF _ istep.cluster])
next
  case (unregister m1 r t rs y rs1 m2)
  then show ?case using ireach.next_step istep.unregister by metis
qed

lemma ireach_runs: "runs (pass_step E) st st' \<Longrightarrow> ireach E st0 st \<Longrightarrow> ireach E st0 st'"
proof (induction rule: runs_induct)
  case (step s s1 s')
  then show ?case using ireach.next_step istep.evaluator by metis
qed

section \<open>Properties\<close>


text \<open>The example's manager is created from the cluster, and the example's ResourceSummary is reconciled.\<close>

definition ex_system :: "(objref list, ref_cluster, ref_value) system" where
  "ex_system = \<lparr>sys_process = \<lparr>managerInstance = Some (newManager ref_ext [] [] [] 5 False), evaluators = 1, waitGroup = 1,
     versionToStore = Some [], dropped = []\<rparr>, sys_evaluator = Sleeping, sys_cluster = ex_cluster\<rparr>"

lemma ex_system_reached: "sys_reach ref_ext initFlags excluded ex_system" if "\<And>s'. \<not> excluded (sys_start ex_cluster) s'"
proof -
  let ?s = "sys_start ex_cluster :: (objref list, ref_cluster, ref_value) system"
  have "initialize_attempt ref_ext initFlags (main_mode initFlags) (sys_process ?s, sys_cluster ?s) =
      (Ok (), sys_process ex_system, ex_cluster)"
    by (simp add: initialize_attempt_def InitializeManager_def sys_start_def ex_system_def readResourceSummaries_def
        readResourceSummary_def initFlags_def main_mode_def noUpdates_def run)
  then have "sys_step ref_ext initFlags ?s (?s\<lparr>sys_process := sys_process ex_system, sys_evaluator := Sleeping, sys_cluster := ex_cluster\<rparr>)"
    by (intro sys_step.initialize) (simp_all add: sys_start_def)
  moreover have "?s\<lparr>sys_process := sys_process ex_system, sys_evaluator := Sleeping, sys_cluster := ex_cluster\<rparr> = ex_system"
    by (simp add: sys_start_def ex_system_def)
  ultimately show ?thesis using sys_reach.next_step [OF sys_reach.start] that by metis
qed


end
