(* ===== verification/Spec2Isabelle.thy ===== *)
theory Spec2Isabelle
  imports System
begin

text \<open>
  A verification of the drift detection manager of Sveltos.

  \<^bold>\<open>The program.\<close> Sveltos deploys resources to a cluster and creates, for what it deploys together, a
  ResourceSummary that lists them. The drift detection manager watches these resources and, when one
  is changed or deleted by someone else, marks the status of every ResourceSummary that lists it, which
  makes Sveltos deploy it again. Its parts are

  \<^item> the reconciler of ResourceSummaries (\<open>controllers/resourcesummary_controller.go\<close>), which registers the
    resources a ResourceSummary lists, unregisters those it no longer lists, and writes their hashes into
    its status; it works in a scope (\<open>pkg/scope/resourcesummary.go\<close>) that persists the object at the end;
  \<^item> the manager (\<open>pkg/drift-detection/manager.go\<close>), which keeps who tracks what, a hash per resource, and
    one watcher per GVK in use, and rebuilds all of this from the statuses after a restart;
  \<^item> the watchers (\<open>pkg/drift-detection/watcher.go\<close>), informers whose notifications queue a resource;
  \<^item> the evaluation loop (\<open>pkg/drift-detection/drift_evaluation.go\<close>), which takes the queue, compares
    hashes, and asks for reconciliation;
  \<^item> the main loop (\<open>main.go\<close>), which starts all of it, and starts it again when the token expires.

  \<^bold>\<open>The theories.\<close>

  \<^item> \<open>Go_Prelude\<close>: words, slices of bytes and strings, errors by what the error predicates say, the
    outcome of a call (a value, an error, a panic), the idiom that returns early on an error, and the
    collections of lemmas that carry the proofs.
  \<^item> \<open>Kube_Model\<close>: the data the parts exchange, and the record \<open>ext\<close> of all code outside the repository
    (the set type, the API machinery, the clients, the patch helper, the renderer, the patcher). It is
    an argument of every definition that uses it. What proofs rely on are the locales \<open>libset\<close>,
    \<open>apimachinery\<close>, \<open>api_server\<close>, \<open>patch_helper\<close> and \<open>renderer\<close>; \<open>Reference_Cluster\<close> interprets them on
    an executable instance, on which the examples run. A status is stored as JSON, so the text of a hash
    comes back as \<open>json_string\<close> leaves it; the raw bytes of a digest need not survive. The renderer is
    assumed to print a map of strings independently of the order in which it is iterated.
  \<^item> \<open>Sha256\<close>: the hash function of Go's standard library, with a test vector. \<open>Hashing\<close>: \<open>getSortedKeys\<close> and
    \<open>unstructuredHash\<close>; the hash depends on the configuration of the object only.
  \<^item> \<open>Manager_State\<close>: the struct \<open>manager\<close> as a record (a cancel function is the number of the informer it
    stops), object references, the relation \<open>tracked\<close> that the three maps represent, and the invariant
    \<open>manager_inv\<close>. \<open>Watcher\<close>: starting, stopping and running informers, and \<open>react\<close>. \<open>Tracking\<close>:
    \<open>RegisterResource\<close>, \<open>UnRegisterResource\<close> and what they call; they refine insertion into and removal
    from \<open>tracked\<close>, keep the invariant, and stop the watcher with the last resource of a GVK.
  \<^item> \<open>Tracker\<close>: the contract \<open>tracker\<close> between the manager and its clients, with the lemmas on loops of
    calls; the manager meets it (\<open>sublocale\<close>).
  \<^item> \<open>Evaluation\<close>: \<open>evaluateResource\<close>, \<open>requestReconciliations\<close>, the pass over the queue, the loop with its
    wait group, and storing the version. \<open>Startup\<close>: \<open>InitializeManager\<close>, \<open>GetManager\<close>, \<open>Reset\<close> and the
    rebuilding from the statuses.
  \<^item> \<open>Scope\<close> and \<open>Reconciler\<close>: the scope, and every function of the reconciler up to \<open>Reconcile\<close>.
  \<^item> \<open>Main_Loop\<close>: flags and options, the retry and restart loops, \<open>main\<close> and its iterations with the
    goroutines they launch, the scheme.
  \<^item> \<open>Goroutine\<close>: the evaluation goroutine as a machine whose steps are its lock regions and its calls
    to the cluster; without interference a pass is \<open>evaluateQueue\<close>, with any interference it ends.
    \<open>Interleaving\<close>: that machine and the other goroutines that share the manager as one step relation.
    \<open>System\<close>: these steps on the package's instance, with the creation of the manager and restarts; a
    reconciliation and an undisturbed pass are runs of them.

  \<^bold>\<open>What is shown.\<close> The manager's operations refine operations on a relation; a reconciliation brings
  that relation in line with the spec; a drift marks exactly the ResourceSummaries concerned; a pass over
  the queue loses no failed evaluation; a restart queues everything listed; a part of the
  invariant holds in every reachable state of the interleaved system, and all of it in every state
  reached without one race; a notification about a changed
  resource ends, one pass later, in marks on the ResourceSummaries or in a new attempt.

  Where the code does something else than it means to, a theorem says so precisely: notifications for
  kustomize resources are dropped, two resource types are swapped at a restart and text is compared
  with bytes there, a failed request is lost, a watcher that failed is not retried, a ResourceSummary
  is also marked for types with which others track the resource, resources to be ignored stay tracked,
  failures and restarts leave entries behind, and a race leaves a hash. Adding the finalizer writes
  nothing to the API server (\<open>add_finalizer_writes_nothing\<close>).

  \<^bold>\<open>Bounds.\<close> Loops over lists are structural recursion. Loops that may not end are partial functions into
  options (\<open>storeVersion_loop\<close>, \<open>initializeManager\<close>, \<open>restartIfNeeded\<close>), and theorems say when they return;
  the two loops that run as long as the process (\<open>evaluateConfigurationDrift\<close>, \<open>main_loop\<close>) take the
  answers of the context, respectively a number of iterations. Durations are 64-bit words.

  \<^bold>\<open>What is not modelled.\<close> Logging; the lock itself (an operation that holds it is one step; accesses
  without it are in \<open>Goroutine\<close> where an evaluation makes them); what the controller runtime does with
  the options it is given; the contents of patches, which the patcher interprets; the parsing of the
  command line; tests, the test environment and build tools.
\<close>

section \<open>A drift from the notification to the status\<close>

text \<open>
  (C4) A drift from end to end. When an informer reports the change or the deletion of an object, by the
  object itself and not by a tombstone, the object is tracked as a plain resource or through a chart, in
  a manager with nothing queued, and its hash is not the stored one, then after the next pass the object is queued again because its
  evaluation failed, or the new hash is stored and every ResourceSummary that tracks the object and
  exists has the flag of its resource type set.
\<close>

theorem drift_reported_end_to_end:
  assumes "api_server E summaries kind" and "libset E" and "apimachinery E" and "consumers_inv E m"
    and "wf_name (u_Namespace u)" and "wf_name (u_Name u)" and "r = notified_ref E g (u_Namespace u) (u_Name u)"
    and "ev = DeleteEvent (Object u) \<or> ev = UpdateEvent old (Object u)"
    and "(r, Resource, q0) \<in> tracked E m \<or> (r, HelmResource, q0) \<in> tracked E m"
    and "\<forall>t q. (r, t, q) \<in> tracked E m \<longrightarrow> ref_GroupVersionKind E q = kind"
    and "elems E (jobQueue m) = {}"
    and "resourceHashes m r = Some h" and "observed E r m w h' w1" and "h \<noteq> h'"
    and "evaluateQueue E (handleEvent E g ev m, w) = (Ok (), m', w')"
  shows "r \<in> elems E (jobQueue m') \<or> resourceHashes m' r = Some h' \<and>
    (\<forall>t q rs. (r, t, q) \<in> tracked E m \<longrightarrow> summaries w (ref_Namespace q, ref_Name q) = Some rs \<longrightarrow>
      (\<exists>rs'. summaries w' (ref_Namespace q, ref_Name q) = Some rs' \<and> statusChanged t (rs_Status rs')))"
proof -
  obtain k where k: "MetaNamespaceKeyFunc E (Object u) = Ok k" using apimachinery.key_ok [OF assms(3)] by blast
  have tr: "resources m r \<noteq> None \<or> helmResources m r \<noteq> None"
    using assms(9) by (auto simp: tracked_def typeMap_def)
  obtain q where q: "handleEvent E g ev m = m\<lparr>jobQueue := q\<rparr>" using handleEvent_queue_only [of E g ev m] by blast
  have "elems E (jobQueue (react E g (Object u) m)) = {r}"
    using libset.react_queue [OF assms(2,4) k apimachinery.key_roundtrip [OF assms(3,5,6) k], of g]
      tr assms(7,11) by simp
  moreover have "handleEvent E g ev m = react E g (Object u) m" using assms(8) by auto
  ultimately have "elems E (jobQueue (m\<lparr>jobQueue := q\<rparr>)) = {r}" using q by metis
  then have pass: "(case evaluateResource E r (m\<lparr>jobQueue := set_new E\<rparr>, w) of
        (Ok _, m1, w1) \<Rightarrow> (Ok (), m1, w1) | (Err e, m1, w1) \<Rightarrow> (Ok (), checkForConfigurationDrift E r m1, w1)
      | (Panic, m1, w1) \<Rightarrow> (Panic, m1, w1)) = (Ok (), m', w')"
    using libset.evaluateQueue_single [OF assms(2), of "m\<lparr>jobQueue := q\<rparr>" r w] assms(15) unfolding q by simp
  consider "r \<in> elems E (jobQueue m')" | "evaluateResource E r (m\<lparr>jobQueue := set_new E\<rparr>, w) = (Ok (), m', w')"
    using pass libset.elems_Insert [OF assms(2)]
    by (auto simp: checkForConfigurationDrift_def split: prod.splits outcome.splits)
  then show ?thesis
  proof cases
    case 2
    let ?m = "m\<lparr>jobQueue := set_new E\<rparr>"
    have T: "tracked E ?m = tracked E m" by (simp add: tracked_def)
    note marks = api_server.drift_marks [OF assms(1) _ _ assms(14) 2, unfolded observed_jobQueue T, OF assms(13) _ assms(10)]
    have "\<exists>rs'. summaries w' (ref_Namespace q, ref_Name q) = Some rs' \<and> statusChanged t (rs_Status rs')"
      if "(r, t, q) \<in> tracked E m" and "summaries w (ref_Namespace q, ref_Name q) = Some rs" for t q rs
      using api_server.requests_mark_stored [OF assms(1), of w _ rs r h' "reconciliation_requests E ?m r"]
        api_server.asked_for_consumer [OF assms(1), of r t q ?m] marks(2) assms(12) that
      by (fastforce simp: marked_def T)
    moreover have "resourceHashes m' r = Some h'" using marks(1) assms(12) by (simp add: updateResourceHash_def)
    ultimately show ?thesis by blast
  qed simp
qed

theorem drift_reported_end_to_end_witness:
  "\<exists>m' w' rs'. evaluateQueue ref_ext (handleEvent ref_ext ex_deployment_gvk (UpdateEvent (Object ex_deployment_obj) (Object ex_deployment_obj))
      ex_stale, ex_drifted_cluster) = (Ok (), m', w') \<and> elems ref_ext (jobQueue m') = {} \<and>
    ref_summaries w' (''projectsveltos'', ''rs1'') = Some rs' \<and> ResourcesChanged (rs_Status rs')"
proof -
  let ?ev = "UpdateEvent (Object ex_deployment_obj) (Object ex_deployment_obj)"
  have g: "u_GVK ex_deployment_obj = ex_deployment_gvk" by (simp add: ex_deployment_obj_def)
  have inv: "consumers_inv ref_ext ex_stale"
    by (auto simp: consumers_inv_def ex_stale_def ex_registered_def ex_manager_def newManager_def typeMap_def elems_def
        ref_ext_sel split: rtype.splits if_splits)
  have q: "jobQueue ex_stale = []"
    by (simp add: ex_stale_def ex_registered_def ex_manager_def newManager_def ref_ext_sel)
  have ev: "handleEvent ref_ext ex_deployment_gvk ?ev ex_stale = ex_stale\<lparr>jobQueue := [ex_deployment_ref]\<rparr>"
    by (simp add: q) (simp add: ex_stale_def ex_registered_def ex_manager_def run)
  obtain w' where ev_run: "evaluateResource ref_ext ex_deployment_ref (ex_stale, ex_drifted_cluster) =
     (Ok (), updateResourceHash ex_deployment_ref (Some ex_hash) ex_stale, w')" using ex_stale_run by blast
  have same: "ex_stale\<lparr>jobQueue := []\<rparr> = ex_stale" using q by (cases ex_stale) simp
  let ?m = "updateResourceHash ex_deployment_ref (Some ex_hash) ex_stale"
  have pass: "evaluateQueue ref_ext (handleEvent ref_ext ex_deployment_gvk ?ev ex_stale, ex_drifted_cluster) = (Ok (), ?m, w')"
    unfolding ev by (simp add: evaluateQueue_def ref_ext_sel same ev_run)
  have empty: "elems ref_ext (jobQueue ?m) = {}" "elems ref_ext (jobQueue ex_stale) = {}"
    by (simp_all add: updateResourceHash_def q elems_def ref_ext_sel)
  have tr: "(ex_deployment_ref, Resource, ex_summary_ref) \<in> tracked ref_ext ex_stale" by (simp add: ex_stale_tracked)
  from ex_stale_stored drift_reported_end_to_end [OF ref_server.api_server_axioms ref_set.libset_axioms ref_api.apimachinery_axioms inv
      ex_deployment_wf ex_deployment_notified [symmetric, unfolded g] _ disjI1 [OF tr] ex_stale_kinds empty(2)
      ex_stale_hash ex_stale_observed ex_stale_differs pass] tr empty(1)
  have "\<exists>rs'. ref_summaries w' (ref_Namespace ex_summary_ref, ref_Name ex_summary_ref) = Some rs' \<and>
      statusChanged Resource (rs_Status rs')" by blast
  with pass empty(1) show ?thesis by (auto simp: statusChanged_def ex_summary_ref_def)
qed

section \<open>Properties of the whole\<close>

text \<open>
  (C6) The invariant of the package's manager. In every state the system reaches by attempts to create the
  manager, registrations, unregistrations, notifications, the lock regions of evaluations, restarts and
  changes of the cluster, in any order, the part of the invariant holds that concerns consumers, GVKs
  and watchers. In every state reached without the race, that is without a resource losing its hash
  between the moment an evaluation reads that hash and the moment it stores a new one, the whole
  invariant holds; in particular a hash is kept for resources only that some ResourceSummary tracks.
\<close>

theorem reachable_manager_invariant:
  assumes "libset E" and "managerInstance (sys_process s) = Some m"
  shows "(sys_reach E fl (\<lambda>_ _. False) s \<longrightarrow> shared_inv E m) \<and>
    (sys_reach E fl race s \<longrightarrow> manager_inv E m \<and> (\<forall>r. resourceHashes m r \<noteq> None \<longrightarrow> (\<exists>t q. (r, t, q) \<in> tracked E m)))"
proof (intro conjI impI)
  show "shared_inv E m" if "sys_reach E fl (\<lambda>_ _. False) s" by (rule libset.sys_reach_inv [OF assms(1) that assms(2)])
  assume "sys_reach E fl race s"
  then show inv: "manager_inv E m" by (rule quiet_invD(1) [OF libset.sys_reach_quiet [OF assms(1) _ assms(2)]])
  with hashes_invD(1) [OF manager_invD(2) [OF inv]] is_tracked_iff [OF manager_invD(1) [OF inv]]
  show "\<forall>r. resourceHashes m r \<noteq> None \<longrightarrow> (\<exists>t q. (r, t, q) \<in> tracked E m)" by blast
qed

text \<open>The example's manager, after the example's resource was registered and a pass was begun.\<close>

theorem reachable_manager_invariant_witness:
  "\<exists>s m. sys_reach ref_ext initFlags race s \<and> managerInstance (sys_process s) = Some m \<and> manager_inv ref_ext m \<and>
     resourceHashes m ex_deployment_ref = Some (Some ex_hash) \<and> sys_evaluator s = Next [] []"
proof -
  let ?m0 = "newManager ref_ext [] [] [] 5 False"
  have "\<exists>rs1 m1 w1. RegisterResource ref_ext ex_deployment_ref Resource (ex_summary, ?m0, ex_cluster) = (Ok (Some ex_hash), rs1, m1, w1) \<and>
      jobQueue m1 = []"
    by (simp add: ex_hash_def run)
  then obtain rs1 m1 w1 where reg: "RegisterResource ref_ext ex_deployment_ref Resource (ex_summary, ?m0, ex_cluster) =
      (Ok (Some ex_hash), rs1, m1, w1)" and queue: "jobQueue m1 = []" by blast
  have none: "\<not> race (sys_start ex_cluster) s'" for s' by (simp add: race_def sys_start_def)
  let ?s1 = "with_instance (Sleeping, m1, w1) ex_system" and ?m2 = "m1\<lparr>jobQueue := []\<rparr>"
  have s0: "managerInstance (sys_process ex_system) = Some ?m0" "sys_evaluator ex_system = Sleeping" "sys_cluster ex_system = ex_cluster"
    by (simp_all add: ex_system_def)
  have one: "sys_step ref_ext initFlags ex_system ?s1"
    by (rule sys_step.on_instance [OF s0(1)]) (simp only: s0, rule istep.register [OF reg])
  have two: "sys_step ref_ext initFlags ?s1 (with_instance (Next [] [], ?m2, w1) ?s1)"
    by (rule sys_step.on_instance [of _ m1], simp add: with_instance_def, rule istep.evaluator)
      (simp add: with_instance_def queue ref_ext_sel)
  have "\<not> race ex_system ?s1" "\<not> race ?s1 (with_instance (Next [] [], ?m2, w1) ?s1)"
    by (simp_all add: race_def with_instance_def s0)
  with one two have reach: "sys_reach ref_ext initFlags race (with_instance (Next [] [], ?m2, w1) ?s1)"
    using sys_reach.next_step ex_system_reached [where excluded = race, OF none] by metis
  have m: "managerInstance (sys_process (with_instance (Next [] [], ?m2, w1) ?s1)) = Some ?m2" by (simp add: with_instance_def)
  from reachable_manager_invariant [OF ref_set.libset_axioms m] reach have "manager_inv ref_ext ?m2" by blast
  moreover have "resourceHashes ?m2 ex_deployment_ref = Some (Some ex_hash)" using RegisterResource_Ok_hash [OF reg] by simp
  moreover have "sys_evaluator (with_instance (Next [] [], ?m2, w1) ?s1) = Next [] []" by (simp add: with_instance_def)
  ultimately show ?thesis using reach m by blast
qed

text \<open>
  (C7) Deletion from end to end. When the reconciliation of a ResourceSummary that is being deleted
  returns no error, and what it tracked was listed in the reconciler's maps, the manager tracks nothing
  for it any more, and the object the API server still stores, if any, no longer has the finalizer.
\<close>

theorem deletion_releases:
  assumes "patch_helper E summaries kind" and "libset E" and "client_Get E ns n w = (Ok rs, w1)"
    and "rs_Namespace rs = ns" and "rs_Name rs = n"
    and "rs_DeletionTimestamp rs \<noteq> None" and "ContainsFinalizer E rs (ResourceSummaryFinalizer E)"
    and "GetObjectReference E rs = Ok (q, rs')" and "managerInstance p = Some m" and "synced E q (m, R)"
    and "Reconcile E ns n (R, p, w) = (Ok (), R2, p2, w2)"
  shows "\<exists>m2. managerInstance p2 = Some m2 \<and> (\<forall>t. tracks E m2 q t = {}) \<and>
    (\<forall>new. summaries w2 (ns, n) = Some new \<longrightarrow> \<not> ContainsFinalizer E new (ResourceSummaryFinalizer E))"
proof -
  let ?f = "ResourceSummaryFinalizer E"
  let ?params = "\<lparr>params_Client = Some (), params_ResourceSummary = Some rs, params_ControllerName = ''resourceSummary''\<rparr>"
  obtain sc w3 where sc: "NewResourceSummaryScope E ?params w1 = (sc, w3)" by fastforce
  obtain R1 m1 where clean: "cleanMaps E (rs, R, p, w3) = (Ok (), rs', R1, p\<lparr>managerInstance := Some m1\<rparr>, w3)"
    and T: "\<And>q' t. tracks E m1 q' t = (if q' = q then tracks E m q t - map_refs E R q t else tracks E m q' t)"
    using libset.cleanMaps_Ok [OF assms(2,8,9)] by metis
  note frame = GetObjectReference_frame [OF assms(8)]
  have c: "ContainsFinalizer E rs' ?f" using assms(7) frame(4) by (simp add: patch_helper.contains_iff [OF assms(1)])
  let ?rs = "RemoveFinalizer E rs' ?f"
  obtain s where s: "sc = Ok s" "patchHelper s = rs"
    using assms(3,11) sc by (cases sc) (auto simp: Reconcile_def NewResourceSummaryScope_def split: outcome.splits prod.splits)
  obtain y rs4 w4 where close: "patch_Patch E rs ?rs w3 = ((y, rs4), w4)" by (metis prod.exhaust)
  have "y = Ok ()" and p2: "p2 = p\<lparr>managerInstance := Some m1\<rparr>" and w2: "w2 = w4"
    using assms(3,6,11) sc s clean c close
    by (auto simp: Reconcile_def reconcileDelete_def scope_Close_def PatchObject_def split: if_splits outcome.splits)
  have "?f \<in> set (rs_Finalizers rs)" and "?f \<notin> set (rs_Finalizers ?rs)"
    using assms(7) patch_helper.contains_remove [OF assms(1)] by (simp_all add: patch_helper.contains_iff [OF assms(1)])
  then have "rs_Finalizers rs \<noteq> rs_Finalizers ?rs" by metis
  then have "rs_Finalizers new = rs_Finalizers ?rs" if "summaries w2 (ns, n) = Some new" for new
    using patch_helper.patch_finalizers [OF assms(1), of rs ?rs w3 rs4 w4 new] close \<open>y = Ok ()\<close> w2 that assms(4,5) frame(1,2)
    by (simp add: patch_helper.remove_names [OF assms(1)])
  then have "\<forall>new. summaries w2 (ns, n) = Some new \<longrightarrow> \<not> ContainsFinalizer E new ?f"
    by (simp add: patch_helper.contains_iff [OF assms(1)] patch_helper.remove_set [OF assms(1)])
  moreover have "\<forall>t. tracks E m1 q t = {}" using T assms(10) by (auto simp: synced_def)
  ultimately show ?thesis using p2 by simp
qed

definition ex_deleted_cluster :: ref_cluster where
  "ex_deleted_cluster = ex_cluster\<lparr>c_summaries := [((''projectsveltos'', ''rs1''), ex_deleted)]\<rparr>"

theorem deletion_releases_witness:
  "\<exists>R2 p2 w2 m2. Reconcile ref_ext ''projectsveltos'' ''rs1'' (ex_synced,
      ex_started\<lparr>managerInstance := Some ex_registered\<rparr>, ex_deleted_cluster) = (Ok (), R2, p2, w2) \<and>
    managerInstance p2 = Some m2 \<and> tracks ref_ext m2 ex_summary_ref Resource = {}"
proof -
  let ?p = "ex_started\<lparr>managerInstance := Some ex_registered\<rparr>"
  have get: "client_Get ref_ext ''projectsveltos'' ''rs1'' ex_deleted_cluster = (Ok ex_deleted, ex_deleted_cluster)"
    by (simp add: ex_deleted_cluster_def ex_deleted_def run)
  have sync: "synced ref_ext ex_summary_ref (ex_registered, ex_synced)"
    by (auto simp: synced_def tracks_def map_refs_def summaryMap_def ex_synced_def elems_def ref_ext_sel
        ex_registered_tracked split: rtype.splits)
  have "\<exists>R2 p2 w2. Reconcile ref_ext ''projectsveltos'' ''rs1'' (ex_synced, ?p, ex_deleted_cluster) = (Ok (), R2, p2, w2)"
    by (simp add: Reconcile_def NewResourceSummaryScope_def reconcileDelete_def scope_Close_def PatchObject_def
        ex_deleted_cluster_def ex_deleted_def ex_synced_def ex_reconciler_def ex_started_def ex_registered_def ex_manager_def run)
  then obtain R2 p2 w2 where del: "Reconcile ref_ext ''projectsveltos'' ''rs1'' (ex_synced, ?p, ex_deleted_cluster) = (Ok (), R2, p2, w2)"
    by blast
  have "rs_Namespace ex_deleted = ''projectsveltos''" "rs_Name ex_deleted = ''rs1''"
    "rs_DeletionTimestamp ex_deleted \<noteq> None" "ContainsFinalizer ref_ext ex_deleted (ResourceSummaryFinalizer ref_ext)"
    by (simp_all add: ex_deleted_def ex_summary_def ref_ext_sel)
  from deletion_releases [OF ref_patcher.patch_helper_axioms ref_set.libset_axioms get this ex_deleted_reference _ sync del] del
  show ?thesis by auto
qed

end
